theory Spec2Isabelle
  imports Complex_Main "HOL-Library.Sublist" "HOL-Library.Multiset" "HOL-Library.List_Lexorder"
begin

section \<open>JavaScript strings and numbers\<close>

text \<open>
  Strings are lists of characters. The model covers the ASCII range: \<open>trim\<close>
  strips the ASCII white space and line terminators, \<open>toLowerCase\<close> maps A-Z to
  a-z and leaves every other character alone. \<open>includes_str s t\<close> is the method call
  \<^verbatim>\<open>s.includes(t)\<close>.
\<close>

definition isWhitespace :: "char \<Rightarrow> bool" where
  "isWhitespace c = ((of_char c :: nat) \<in> {9, 10, 11, 12, 13, 32})"

definition trim :: "string \<Rightarrow> string" where
  "trim s = rev (dropWhile isWhitespace (rev (dropWhile isWhitespace s)))"

definition toLowerChar :: "char \<Rightarrow> char" where
  "toLowerChar c =
     (case map_of (zip ''ABCDEFGHIJKLMNOPQRSTUVWXYZ'' ''abcdefghijklmnopqrstuvwxyz'') c of
        None \<Rightarrow> c
      | Some l \<Rightarrow> l)"

definition toLowerCase :: "string \<Rightarrow> string" where
  "toLowerCase s = map toLowerChar s"

fun includes_str :: "string \<Rightarrow> string \<Rightarrow> bool" where
  "includes_str [] t = (t = [])"
| "includes_str (c # s) t = (prefix t (c # s) \<or> includes_str s t)"

text \<open>
  A JavaScript number that a comparator returns: a finite value or \<open>NaN\<close>.
  Prices are exact rationals; subtraction of two finite doubles has the sign of the
  exact difference, which is all that \<^verbatim>\<open>Array.prototype.sort\<close> looks at.
\<close>

datatype number = Num rat | NaN

text \<open>\<^verbatim>\<open>a - b\<close> where either operand may be \<^verbatim>\<open>undefined\<close>: that gives \<open>NaN\<close>.\<close>

fun minus_number :: "rat option \<Rightarrow> rat option \<Rightarrow> number" where
  "minus_number (Some a) (Some b) = Num (a - b)"
| "minus_number _ _ = NaN"

fun is_positive :: "number \<Rightarrow> bool" where
  "is_positive (Num v) = (0 < v)"
| "is_positive NaN = False"

section \<open>Products and thrown errors\<close>

text \<open>
  A product is a JSON object of the remote API. Nothing guarantees its shape, so a
  field that is absent (\<^verbatim>\<open>undefined\<close> or \<^verbatim>\<open>null\<close>) is \<open>None\<close>.
\<close>

record product =
  pid :: nat
  title :: "string option"
  description :: "string option"
  category :: "string option"
  price :: "rat option"

text \<open>
  What a JavaScript \<^verbatim>\<open>throw\<close> carries: the engine's \<open>TypeError\<close> for a method call
  on \<^verbatim>\<open>undefined\<close>, or an \<^verbatim>\<open>Error\<close> object with its message.
\<close>

datatype error = TypeError string | Error string

fun message :: "error \<Rightarrow> string" where
  "message (TypeError m) = m"
| "message (Error m) = m"

text \<open>The text of the engine's \<open>TypeError\<close> for a method call on \<^verbatim>\<open>undefined\<close>.\<close>

definition undefined_receiver :: error where
  "undefined_receiver = TypeError ''Cannot read property of undefined''"

section \<open>Array.prototype.sort\<close>

text \<open>
  \<^verbatim>\<open>xs.sort(cmp)\<close> is stable; \<open>b\<close> is moved before \<open>a\<close> only when \<open>cmp a b\<close> is
  positive (\<open>NaN\<close> counts as zero), and an exception of the comparator leaves the
  sort. The order of the comparator calls is the engine's choice; the model is the
  stable insertion sort. Where the comparator is a total preorder that never throws
  the result does not depend on that choice.
\<close>

fun insert_sorted :: "('a \<Rightarrow> 'a \<Rightarrow> error + number) \<Rightarrow> 'a \<Rightarrow> 'a list \<Rightarrow> error + 'a list" where
  "insert_sorted cmp x [] = Inr [x]"
| "insert_sorted cmp x (y # ys) =
     (case cmp x y of
        Inl e \<Rightarrow> Inl e
      | Inr v \<Rightarrow>
          if is_positive v
          then (case insert_sorted cmp x ys of Inl e \<Rightarrow> Inl e | Inr zs \<Rightarrow> Inr (y # zs))
          else Inr (x # y # ys))"

fun array_sort :: "('a \<Rightarrow> 'a \<Rightarrow> error + number) \<Rightarrow> 'a list \<Rightarrow> error + 'a list" where
  "array_sort cmp [] = Inr []"
| "array_sort cmp (x # xs) =
     (case array_sort cmp xs of Inl e \<Rightarrow> Inl e | Inr ys \<Rightarrow> insert_sorted cmp x ys)"

section \<open>The list screen: src/screens/ProfileScreen.js\<close>

text \<open>
  The screen keeps the query in three state variables and takes \<open>products\<close> from the
  \<open>useProducts\<close> hook. \<open>None\<close> stands for a value that is \<^verbatim>\<open>null\<close>, \<^verbatim>\<open>undefined\<close> or
  not an array (the guard at the head of each stage).
\<close>

record screen =
  products :: "product list option"
  searchQuery :: string
  sortBy :: string
  filterCategory :: string

text \<open>
  \<^verbatim>\<open>product.title.toLowerCase()\<close> throws a \<open>TypeError\<close> when the title is absent.
\<close>

fun title_matches :: "string \<Rightarrow> product \<Rightarrow> error + bool" where
  "title_matches q p =
     (case title p of
        None \<Rightarrow> Inl undefined_receiver
      | Some t \<Rightarrow> Inr (includes_str (toLowerCase t) (toLowerCase q)))"

text \<open>\<^verbatim>\<open>xs.filter(f)\<close> for a callback that may throw: the first exception ends the call.\<close>

fun array_filter :: "('a \<Rightarrow> error + bool) \<Rightarrow> 'a list \<Rightarrow> error + 'a list" where
  "array_filter f [] = Inr []"
| "array_filter f (x # xs) =
     (case f x of
        Inl e \<Rightarrow> Inl e
      | Inr b \<Rightarrow>
          (case array_filter f xs of
             Inl e \<Rightarrow> Inl e
           | Inr ys \<Rightarrow> Inr (if b then x # ys else ys)))"

definition filterProducts :: "screen \<Rightarrow> product list option \<Rightarrow> error + product list" where
  "filterProducts s productList =
     (case productList of
        None \<Rightarrow> Inr []
      | Some xs \<Rightarrow>
          if trim (searchQuery s) = [] then Inr xs
          else array_filter (title_matches (searchQuery s)) xs)"

definition filterByCategory :: "screen \<Rightarrow> product list option \<Rightarrow> product list" where
  "filterByCategory s productList =
     (case productList of
        None \<Rightarrow> []
      | Some xs \<Rightarrow>
          if filterCategory s = ''all'' then xs
          else filter (\<lambda>p. category p = Some (filterCategory s)) xs)"

text \<open>
  The three comparators of \<open>sortProducts\<close>. \<open>lc\<close> is \<^verbatim>\<open>String.prototype.localeCompare\<close>,
  a parameter: its order is the engine's locale data. A receiver that is absent throws;
  an absent argument is converted to the string \<^verbatim>\<open>undefined\<close>.
\<close>

fun cmp_name_asc :: "(string \<Rightarrow> string \<Rightarrow> int) \<Rightarrow> product \<Rightarrow> product \<Rightarrow> error + number" where
  "cmp_name_asc lc a b =
     (case title a of
        None \<Rightarrow> Inl undefined_receiver
      | Some ta \<Rightarrow>
          Inr (Num (of_int (lc ta (case title b of None \<Rightarrow> ''undefined'' | Some tb \<Rightarrow> tb)))))"

fun cmp_price_asc :: "product \<Rightarrow> product \<Rightarrow> error + number" where
  "cmp_price_asc a b = Inr (minus_number (price a) (price b))"

fun cmp_price_desc :: "product \<Rightarrow> product \<Rightarrow> error + number" where
  "cmp_price_desc a b = Inr (minus_number (price b) (price a))"

definition sortProducts ::
  "(string \<Rightarrow> string \<Rightarrow> int) \<Rightarrow> screen \<Rightarrow> product list option \<Rightarrow> error + product list" where
  "sortProducts lc s productList =
     (case productList of
        None \<Rightarrow> Inr []
      | Some xs \<Rightarrow>
          if sortBy s = ''name-asc'' then array_sort (cmp_name_asc lc) xs
          else if sortBy s = ''price-asc'' then array_sort cmp_price_asc xs
          else if sortBy s = ''price-desc'' then array_sort cmp_price_desc xs
          else Inr xs)"

definition getProcessedProducts :: "(string \<Rightarrow> string \<Rightarrow> int) \<Rightarrow> screen \<Rightarrow> error + product list" where
  "getProcessedProducts lc s =
     (case products s of
        None \<Rightarrow> Inr []
      | Some raw \<Rightarrow>
          (case filterProducts s (Some (filterByCategory s (Some raw))) of
             Inl e \<Rightarrow> Inl e
           | Inr found \<Rightarrow> sortProducts lc s (Some found)))"




subsection \<open>The copy made by sortProducts\<close>

text \<open>
  \<open>sortProducts\<close> sorts \<^verbatim>\<open>[...productList]\<close> in place. Arrays live in a store; the
  addresses below \<open>fresh\<close> are allocated.
\<close>

record store =
  cells :: "nat \<Rightarrow> product list"
  fresh :: nat

definition spread :: "store \<Rightarrow> nat \<Rightarrow> store \<times> nat" where
  "spread h a = (h\<lparr>cells := (cells h)(fresh h := cells h a), fresh := Suc (fresh h)\<rparr>, fresh h)"

definition sort_in_place ::
  "(product \<Rightarrow> product \<Rightarrow> error + number) \<Rightarrow> store \<Rightarrow> nat \<Rightarrow> error + store \<times> nat" where
  "sort_in_place cmp h a =
     (case array_sort cmp (cells h a) of
        Inl e \<Rightarrow> Inl e
      | Inr ys \<Rightarrow> Inr (h\<lparr>cells := (cells h)(a := ys)\<rparr>, a))"

definition sortProducts_store ::
  "(string \<Rightarrow> string \<Rightarrow> int) \<Rightarrow> screen \<Rightarrow> store \<Rightarrow> nat \<Rightarrow> error + store \<times> nat" where
  "sortProducts_store lc s h productList =
     (case spread h productList of
        (h1, sorted') \<Rightarrow>
          if sortBy s = ''name-asc'' then sort_in_place (cmp_name_asc lc) h1 sorted'
          else if sortBy s = ''price-asc'' then sort_in_place cmp_price_asc h1 sorted'
          else if sortBy s = ''price-desc'' then sort_in_place cmp_price_desc h1 sorted'
          else Inr (h1, sorted'))"

section \<open>The list hook: src/hooks/useProducts.js\<close>

record useProducts_state =
  products_u :: "product list"
  filteredProducts :: "product list"
  loading_u :: bool
  error_u :: "string option"

definition useProducts_init :: useProducts_state where
  "useProducts_init = \<lparr>products_u = [], filteredProducts = [], loading_u = True, error_u = None\<rparr>"

text \<open>
  \<open>loadProducts\<close> up to its \<^verbatim>\<open>await\<close>, and from there on with what \<open>fetchProducts\<close>
  gave: the value, or the exception thrown.
\<close>

definition loadProducts_start :: "useProducts_state \<Rightarrow> useProducts_state" where
  "loadProducts_start h = h\<lparr>loading_u := True, error_u := None\<rparr>"

fun loadProducts_settle :: "error + product list \<Rightarrow> useProducts_state \<Rightarrow> useProducts_state" where
  "loadProducts_settle (Inr data) h =
     h\<lparr>products_u := data, filteredProducts := data, loading_u := False\<rparr>"
| "loadProducts_settle (Inl err) h = h\<lparr>error_u := Some (message err), loading_u := False\<rparr>"

text \<open>\<^verbatim>\<open>(x || '')\<close> and \<^verbatim>\<open>(x || 0)\<close>: the default for an absent field.\<close>

definition or_empty :: "string option \<Rightarrow> string" where
  "or_empty x = (case x of None \<Rightarrow> [] | Some t \<Rightarrow> t)"

definition or_zero :: "rat option \<Rightarrow> rat" where
  "or_zero x = (case x of None \<Rightarrow> 0 | Some v \<Rightarrow> v)"

definition handleSearch :: "string \<Rightarrow> useProducts_state \<Rightarrow> useProducts_state" where
  "handleSearch query h =
     (if trim query = [] then h\<lparr>filteredProducts := products_u h\<rparr>
      else h\<lparr>filteredProducts :=
             filter (\<lambda>p. includes_str (toLowerCase (or_empty (title p))) (toLowerCase query)
                       \<or> includes_str (toLowerCase (or_empty (description p))) (toLowerCase query))
               (products_u h)\<rparr>)"

fun cmp_title :: "(string \<Rightarrow> string \<Rightarrow> int) \<Rightarrow> product \<Rightarrow> product \<Rightarrow> error + number" where
  "cmp_title lc a b = Inr (Num (of_int (lc (or_empty (title a)) (or_empty (title b)))))"

fun cmp_price :: "product \<Rightarrow> product \<Rightarrow> error + number" where
  "cmp_price a b = Inr (Num (or_zero (price a) - or_zero (price b)))"

definition handleSort ::
  "(string \<Rightarrow> string \<Rightarrow> int) \<Rightarrow> string \<Rightarrow> useProducts_state \<Rightarrow> error + useProducts_state" where
  "handleSort lc sortBy' h =
     (case (if sortBy' = ''title'' then array_sort (cmp_title lc) (filteredProducts h)
            else if sortBy' = ''price'' then array_sort cmp_price (filteredProducts h)
            else Inr (filteredProducts h)) of
        Inl e \<Rightarrow> Inl e
      | Inr sorted' \<Rightarrow> Inr (h\<lparr>filteredProducts := sorted'\<rparr>))"

text \<open>The argument of \<open>handleFilter\<close> may be \<^verbatim>\<open>null\<close> or \<^verbatim>\<open>undefined\<close>: \<open>None\<close>.\<close>

definition handleFilter :: "string option \<Rightarrow> useProducts_state \<Rightarrow> useProducts_state" where
  "handleFilter category' h =
     (case category' of
        None \<Rightarrow> h\<lparr>filteredProducts := products_u h\<rparr>
      | Some c \<Rightarrow>
          if c = [] \<or> trim c = [] \<or> toLowerCase c = ''all''
          then h\<lparr>filteredProducts := products_u h\<rparr>
          else h\<lparr>filteredProducts :=
                 filter (\<lambda>p. toLowerCase (or_empty (category p)) = toLowerCase c) (products_u h)\<rparr>)"




section \<open>The API service: src/services/api.js\<close>

text \<open>
  A product id as a caller may pass it. A request names the endpoint and its argument
  (the URL is \<^verbatim>\<open>https://dummyjson.com\<close> followed by the path, the argument encoded
  by \<^verbatim>\<open>encodeURIComponent\<close> for the two that encode it).
\<close>

datatype jsid = Undefined | Null | IdNum nat | IdStr string

datatype request = GetProducts | GetSearch string | GetCategory string | GetProduct jsid

text \<open>
  What \<^verbatim>\<open>fetch\<close> gives: it rejects, or it resolves to a response with a status and a
  body, for which \<^verbatim>\<open>response.json()\<close> rejects or yields the value the function returns
  (\<^verbatim>\<open>data.products\<close>, or \<^verbatim>\<open>data\<close> for a single product).
\<close>

record 'a response =
  status :: nat
  json :: "error + 'a"

type_synonym 'a network = "request \<Rightarrow> error + 'a response"

definition ok :: "'a response \<Rightarrow> bool" where
  "ok r = (200 \<le> status r \<and> status r \<le> 299)"

definition digit :: "nat \<Rightarrow> char" where
  "digit n = ''0123456789'' ! n"

function string_of_nat :: "nat \<Rightarrow> string" where
  "string_of_nat n = (if n < 10 then [digit n] else string_of_nat (n div 10) @ [digit (n mod 10)])"
  by pat_completeness auto
termination
  by (relation "measure (\<lambda>n. n)") auto

fun id_text :: "jsid \<Rightarrow> string" where
  "id_text Undefined = ''undefined''"
| "id_text Null = ''null''"
| "id_text (IdNum n) = string_of_nat n"
| "id_text (IdStr s) = s"

definition http_error :: "nat \<Rightarrow> error" where
  "http_error st = Error (''HTTP error! status: '' @ string_of_nat st)"

text \<open>
  Each function returns the requests it has sent and how its promise settles: \<open>Inl\<close>
  the exception thrown in its body, \<open>Inr\<close> the value returned. The \<^verbatim>\<open>catch\<close> block of
  each logs the error and throws it again.
\<close>

definition fetchProducts :: "'a network \<Rightarrow> request list \<times> (error + 'a)" where
  "fetchProducts net =
     (case net GetProducts of
        Inl e \<Rightarrow> ([GetProducts], Inl e)
      | Inr r \<Rightarrow> ([GetProducts], if \<not> ok r then Inl (http_error (status r)) else json r))"

definition searchProducts :: "'a network \<Rightarrow> string option \<Rightarrow> request list \<times> (error + 'a)" where
  "searchProducts net query =
     (case query of
        None \<Rightarrow> ([], Inl (Error ''Search query cannot be empty''))
      | Some q \<Rightarrow>
          if q = [] \<or> trim q = [] then ([], Inl (Error ''Search query cannot be empty''))
          else (case net (GetSearch q) of
                  Inl e \<Rightarrow> ([GetSearch q], Inl e)
                | Inr r \<Rightarrow>
                    ([GetSearch q], if \<not> ok r then Inl (http_error (status r)) else json r)))"

definition fetchProductsByCategory ::
  "'a network \<Rightarrow> string option \<Rightarrow> request list \<times> (error + 'a)" where
  "fetchProductsByCategory net category' =
     (case category' of
        None \<Rightarrow> ([], Inl (Error ''Category cannot be empty''))
      | Some c \<Rightarrow>
          if c = [] \<or> trim c = [] then ([], Inl (Error ''Category cannot be empty''))
          else (case net (GetCategory c) of
                  Inl e \<Rightarrow> ([GetCategory c], Inl e)
                | Inr r \<Rightarrow>
                    ([GetCategory c], if \<not> ok r then Inl (http_error (status r)) else json r)))"

definition fetchProductById :: "'a network \<Rightarrow> jsid \<Rightarrow> request list \<times> (error + 'a)" where
  "fetchProductById net id' =
     (if id' = Null \<or> id' = Undefined \<or> id' = IdStr []
      then ([], Inl (Error ''Product ID is required and cannot be empty''))
      else (case net (GetProduct id') of
              Inl e \<Rightarrow> ([GetProduct id'], Inl e)
            | Inr r \<Rightarrow>
                ([GetProduct id'],
                 if \<not> ok r
                 then (if status r = 404
                       then Inl (Error (''Product with ID '' @ id_text id' @ '' not found''))
                       else Inl (http_error (status r)))
                 else json r)))"

text \<open>
  The call in \<open>useProductDetail\<close> passes \<^verbatim>\<open>controller.signal\<close> as a second argument.
  \<open>fetchProductById\<close> declares one parameter, so the extra argument is dropped.
\<close>

definition fetchProductById_call ::
  "'a network \<Rightarrow> jsid \<Rightarrow> 's \<Rightarrow> request list \<times> (error + 'a)" where
  "fetchProductById_call net productId signal = fetchProductById net productId"

section \<open>The detail hook: src/hooks/useProductDetail.js\<close>

text \<open>
  Every run of the effect has its own \<open>AbortController\<close> and one pending
  \<open>fetchProduct\<close>. A run is in flight with its signal clear, in flight with its signal
  aborted, or past its \<^verbatim>\<open>await\<close>. The setters called in one synchronous stretch of
  \<open>fetchProduct\<close> are rendered together (React 18 batches them), so each stretch is
  one transition of the state a consumer can observe.
\<close>

datatype run = InFlight | Cancelled | Settled

record useProductDetail_state =
  product_d :: "product option"
  loading_d :: bool
  error_d :: "string option"
  runs :: "run list"

definition useProductDetail_init :: useProductDetail_state where
  "useProductDetail_init = \<lparr>product_d = None, loading_d = True, error_d = None, runs = []\<rparr>"

text \<open>The cleanup function of the latest run: \<^verbatim>\<open>controller.abort()\<close>.\<close>

definition cleanup :: "run list \<Rightarrow> run list" where
  "cleanup rs =
     (if rs = [] then []
      else butlast rs @ [if last rs = InFlight then Cancelled else last rs])"

text \<open>
  \<open>Effect\<close>: React runs the effect (at mount, and when \<open>productId\<close> has changed), after
  the cleanup of the run before; \<open>fetchProduct\<close> runs up to its \<^verbatim>\<open>await\<close>.
  \<open>Unmount\<close>: the last cleanup. \<open>Settle k r\<close>: the promise awaited by run \<open>k\<close> settles
  with \<open>r\<close>, and \<open>fetchProduct\<close> runs from its \<^verbatim>\<open>await\<close> to its end; a promise settles once.
  A fulfilled promise carries what \<^verbatim>\<open>response.json()\<close> yielded, which nothing checks:
  a product, or \<^verbatim>\<open>null\<close> (\<open>None\<close>), and \<^verbatim>\<open>setProduct(data)\<close> stores it as it is.
\<close>

datatype event = Effect | Unmount | Settle nat "error + product option"

fun fetchProduct_resume ::
  "error + product option \<Rightarrow> useProductDetail_state \<Rightarrow> useProductDetail_state" where
  "fetchProduct_resume (Inr data) s = s\<lparr>product_d := data, loading_d := False\<rparr>"
| "fetchProduct_resume (Inl err) s =
     s\<lparr>error_d := Some (if message err = [] then ''Failed to fetch product'' else message err),
       loading_d := False\<rparr>"

fun step :: "useProductDetail_state \<Rightarrow> event \<Rightarrow> useProductDetail_state" where
  "step s Effect = s\<lparr>error_d := None, loading_d := True, runs := cleanup (runs s) @ [InFlight]\<rparr>"
| "step s Unmount = s\<lparr>runs := cleanup (runs s)\<rparr>"
| "step s (Settle k r) =
     (if k < length (runs s)
      then (case runs s ! k of
              Settled \<Rightarrow> s
            | Cancelled \<Rightarrow> s\<lparr>runs := (runs s)[k := Settled]\<rparr>
            | InFlight \<Rightarrow> (fetchProduct_resume r s)\<lparr>runs := (runs s)[k := Settled]\<rparr>)
      else s)"

text \<open>What the hook returns to its consumer.\<close>

definition view :: "useProductDetail_state \<Rightarrow> product option \<times> bool \<times> string option" where
  "view s = (product_d s, loading_d s, error_d s)"

text \<open>
  What holds of the runs in every reachable state: only the latest run can be in
  flight with its signal clear; after the last cleanup none is; while a run is in
  flight with its signal clear the hook is loading without error; an error is never
  shown while loading.
\<close>

definition only_last :: "useProductDetail_state \<Rightarrow> bool" where
  "only_last s = (\<forall>k. Suc k < length (runs s) \<longrightarrow> runs s ! k \<noteq> InFlight)"

definition none_in_flight :: "useProductDetail_state \<Rightarrow> bool" where
  "none_in_flight s = (\<forall>k < length (runs s). runs s ! k \<noteq> InFlight)"

definition live_is_loading :: "useProductDetail_state \<Rightarrow> bool" where
  "live_is_loading s =
     (only_last s
      \<and> ((\<exists>k < length (runs s). runs s ! k = InFlight) \<longrightarrow> loading_d s \<and> error_d s = None))"

definition settled_shape :: "useProductDetail_state \<Rightarrow> bool" where
  "settled_shape s = (error_d s \<noteq> None \<longrightarrow> \<not> loading_d s)"

section \<open>The query after a sequence of interactions\<close>




section \<open>The projection of the specification\<close>

text \<open>
  The pipeline as section 4.2 of the specification words it, to compare the screen
  with: the category stage keeps the products whose category equals the query's
  unless that is \<open>all\<close>; the search stage keeps the products whose lower-cased title
  contains the trimmed, lower-cased search text unless that is blank, a product
  without title not matching; the sort stage sorts by the chosen key, ties in the
  order of the input: by price, or by title in the locale's order without regard to
  letter case. An absent title sorts as the empty string and an absent price as
  zero. \<open>key\<close> is the collation key of the locale; it is applied to the lower-cased
  title.
\<close>

datatype sortKey = Name_asc | Price_asc | Price_desc


record queryDescriptor =
  searchText :: string
  category_q :: string
  sortKey_q :: sortKey

definition spec_category_stage :: "queryDescriptor \<Rightarrow> product list \<Rightarrow> product list" where
  "spec_category_stage q ps =
     (if category_q q = ''all'' then ps
      else filter (\<lambda>p. category p = Some (category_q q)) ps)"

definition spec_search_stage :: "queryDescriptor \<Rightarrow> product list \<Rightarrow> product list" where
  "spec_search_stage q ps =
     (if trim (searchText q) = [] then ps
      else filter (\<lambda>p. case title p of
                          None \<Rightarrow> False
                        | Some t \<Rightarrow>
                            includes_str (toLowerCase t) (toLowerCase (trim (searchText q)))) ps)"

fun spec_sort_stage :: "(string \<Rightarrow> 'k::linorder) \<Rightarrow> sortKey \<Rightarrow> product list \<Rightarrow> product list" where
  "spec_sort_stage key Name_asc ps = sort_key (\<lambda>p. key (toLowerCase (or_empty (title p)))) ps"
| "spec_sort_stage key Price_asc ps = sort_key (\<lambda>p. or_zero (price p)) ps"
| "spec_sort_stage key Price_desc ps = sort_key (\<lambda>p. - or_zero (price p)) ps"

definition project ::
  "(string \<Rightarrow> 'k::linorder) \<Rightarrow> product list \<Rightarrow> queryDescriptor \<Rightarrow> product list" where
  "project key rawProducts q =
     spec_sort_stage key (sortKey_q q) (spec_search_stage q (spec_category_stage q rawProducts))"

section \<open>Sample data\<close>

text \<open>
  The three products of the specification's scenario, a product without title and
  price, two products whose titles differ in letter case only, and one
  \<open>localeCompare\<close>: the order of the code units.
\<close>

definition iphone :: product where
  "iphone = \<lparr>pid = 1, title = Some ''iPhone 9'',
     description = Some ''An apple mobile which is nothing like apple'',
     category = Some ''smartphones'', price = Some 549\<rparr>"

definition samsung :: product where
  "samsung = \<lparr>pid = 2, title = Some ''Samsung Universe 9'',
     description = Some ''Goes beyond Galaxy to the Universe'',
     category = Some ''smartphones'', price = Some 1249\<rparr>"

definition lipstick :: product where
  "lipstick = \<lparr>pid = 3, title = Some ''Red Lipstick'',
     description = Some ''A long lasting matte colour'',
     category = Some ''beauty'', price = Some 12\<rparr>"

definition untitled :: product where
  "untitled = \<lparr>pid = 4, title = None, description = None,
     category = Some ''beauty'', price = None\<rparr>"

definition loaded :: useProducts_state where
  "loaded = \<lparr>products_u = [iphone, samsung, lipstick],
     filteredProducts = [iphone, samsung, lipstick], loading_u = False, error_u = None\<rparr>"

definition browsing :: screen where
  "browsing = \<lparr>products = Some [iphone, samsung, lipstick], searchQuery = [],
     sortBy = ''price-desc'', filterCategory = ''smartphones''\<rparr>"

definition searching :: screen where
  "searching = \<lparr>products = Some [iphone, samsung, lipstick], searchQuery = ''Lip'',
     sortBy = ''name-asc'', filterCategory = ''all''\<rparr>"

definition by_name :: screen where
  "by_name = \<lparr>products = Some [samsung, lipstick], searchQuery = [],
     sortBy = ''name-asc'', filterCategory = ''smartphones''\<rparr>"

definition lower_abc :: product where
  "lower_abc = \<lparr>pid = 10, title = Some ''abc'', description = None,
     category = Some ''beauty'', price = Some 1\<rparr>"

definition upper_abc :: product where
  "upper_abc = \<lparr>pid = 11, title = Some ''ABC'', description = None,
     category = Some ''beauty'', price = Some 1\<rparr>"

definition shelf :: store where
  "shelf = \<lparr>cells = (\<lambda>a. if a = 0 then [iphone, samsung, lipstick] else []), fresh = 1\<rparr>"

definition offline :: "product option network" where
  "offline = (\<lambda>r. Inl (TypeError ''Network request failed''))"

fun code_unit_compare :: "string \<Rightarrow> string \<Rightarrow> int" where
  "code_unit_compare [] [] = 0"
| "code_unit_compare [] (b # bs) = - 1"
| "code_unit_compare (a # as) [] = 1"
| "code_unit_compare (a # as) (b # bs) =
     (if (of_char a :: nat) < of_char b then - 1
      else if (of_char b :: nat) < of_char a then 1
      else code_unit_compare as bs)"

definition code_units :: "string \<Rightarrow> nat list" where
  "code_units s = map of_char s"

section \<open>Properties of the building blocks\<close>

lemmas sample_defs =
  iphone_def samsung_def lipstick_def untitled_def loaded_def browsing_def searching_def
  offline_def by_name_def lower_abc_def upper_abc_def

lemmas string_defs = trim_def isWhitespace_def toLowerCase_def toLowerChar_def or_empty_def

lemma array_filter_Inr:
  "array_filter f xs = Inr ys \<Longrightarrow>
   ys = filter (\<lambda>x. f x = Inr True) xs \<and> (\<forall>x\<in>set xs. \<exists>b. f x = Inr b)"
  by (induction xs arbitrary: ys) (auto split: sum.splits if_splits)

lemma insert_sorted_mset:
  "insert_sorted cmp x ys = Inr zs \<Longrightarrow> mset zs = add_mset x (mset ys)"
  by (induction ys arbitrary: zs) (auto split: sum.splits if_splits)

lemma array_sort_mset: "array_sort cmp xs = Inr ys \<Longrightarrow> mset ys = mset xs"
  by (induction xs arbitrary: ys) (auto split: sum.splits dest: insert_sorted_mset)

lemma array_sort_set: "array_sort cmp xs = Inr ys \<Longrightarrow> set ys = set xs"
  by (metis array_sort_mset set_mset_mset)

text \<open>
  A comparator that never throws and is positive exactly when the key of its first
  argument is the greater one makes \<open>array_sort\<close> the stable sort by that key.
\<close>

lemma insert_sorted_key:
  assumes "\<forall>y\<in>set ys. \<exists>v. cmp x y = Inr v \<and> (is_positive v \<longleftrightarrow> key y < key x)"
  shows "insert_sorted cmp x ys = Inr (insort_key key x ys)"
  using assms
proof (induction ys)
  case Nil
  then show ?case by simp
next
  case (Cons a ys)
  from Cons.prems obtain v where v: "cmp x a = Inr v" "is_positive v \<longleftrightarrow> key a < key x"
    by auto
  from Cons have ih: "insert_sorted cmp x ys = Inr (insort_key key x ys)" by simp
  show ?case using v ih by (auto simp: not_le)
qed

lemma array_sort_key:
  "(\<And>x y. x \<in> set xs \<Longrightarrow> y \<in> set xs \<Longrightarrow>
      \<exists>v. cmp x y = Inr v \<and> (is_positive v \<longleftrightarrow> key y < key x))
   \<Longrightarrow> array_sort cmp xs = Inr (sort_key key xs)"
proof (induction xs)
  case Nil
  then show ?case by simp
next
  case (Cons a xs)
  have "array_sort cmp xs = Inr (sort_key key xs)"
    by (rule Cons.IH) (use Cons.prems in auto)
  moreover have "insert_sorted cmp a (sort_key key xs) = Inr (insort_key key a (sort_key key xs))"
    by (rule insert_sorted_key) (use Cons.prems in auto)
  ultimately show ?case by simp
qed

lemma code_unit_compare_key: "(0 < code_unit_compare a b) = (code_units b < code_units a)"
  unfolding code_units_def
  by (induction a b rule: code_unit_compare.induct) auto

subsection \<open>The stages of the screen\<close>

lemma sortProducts_set: "sortProducts lc s (Some xs) = Inr ys \<Longrightarrow> set ys = set xs"
  by (auto simp: sortProducts_def split: if_splits dest: array_sort_set)

lemma filterProducts_subset: "filterProducts s (Some xs) = Inr ys \<Longrightarrow> set ys \<subseteq> set xs"
  by (auto simp: filterProducts_def split: if_splits dest: array_filter_Inr)

lemma getProcessedProducts_Inr:
  "getProcessedProducts lc s = Inr out \<Longrightarrow> products s = Some raw \<Longrightarrow>
   \<exists>found. filterProducts s (Some (filterByCategory s (Some raw))) = Inr found
      \<and> sortProducts lc s (Some found) = Inr out"
  by (auto simp: getProcessedProducts_def split: sum.splits)

lemma getProcessedProducts_category:
  assumes "getProcessedProducts lc s = Inr out" "filterCategory s \<noteq> ''all''" "p \<in> set out"
  shows "category p = Some (filterCategory s)"
proof (cases "products s")
  case None
  with assms(1,3) show ?thesis by (simp add: getProcessedProducts_def)
next
  case (Some raw)
  from getProcessedProducts_Inr[OF assms(1) Some] obtain found where
    f: "filterProducts s (Some (filterByCategory s (Some raw))) = Inr found"
       "sortProducts lc s (Some found) = Inr out"
    by blast
  from assms(3) sortProducts_set[OF f(2)] have "p \<in> set found" by simp
  with filterProducts_subset[OF f(1)] have "p \<in> set (filterByCategory s (Some raw))" by blast
  with assms(2) show ?thesis by (simp add: filterByCategory_def)
qed

lemma browsing_displayed:
  "getProcessedProducts code_unit_compare browsing = Inr [samsung, iphone]"
  by (simp add: getProcessedProducts_def filterProducts_def filterByCategory_def
      sortProducts_def trim_def sample_defs)

lemma includes_str_sublist: "includes_str s t = sublist t s"
  by (induction s) (auto simp: sublist_Cons_right)

lemma sublist_trim: "sublist (trim q) q"
proof -
  have "sublist (rev (dropWhile isWhitespace (rev (dropWhile isWhitespace q))))
          (dropWhile isWhitespace q)"
    by (simp add: sublist_rev_left)
  also have "sublist (dropWhile isWhitespace q) q" by simp
  finally show ?thesis by (simp add: trim_def)
qed

lemma includes_trimmed:
  "includes_str s (toLowerCase q) \<Longrightarrow> includes_str s (toLowerCase (trim q))"
  unfolding includes_str_sublist toLowerCase_def
  using map_mono_sublist[OF sublist_trim] sublist_order.order.trans by blast


lemma getProcessedProducts_title:
  assumes "getProcessedProducts lc s = Inr out" "trim (searchQuery s) \<noteq> []" "p \<in> set out"
  shows "\<exists>t. title p = Some t \<and> includes_str (toLowerCase t) (toLowerCase (searchQuery s))"
proof (cases "products s")
  case None
  with assms(1,3) show ?thesis by (simp add: getProcessedProducts_def)
next
  case (Some raw)
  from getProcessedProducts_Inr[OF assms(1) Some] obtain found where
    f: "filterProducts s (Some (filterByCategory s (Some raw))) = Inr found"
       "sortProducts lc s (Some found) = Inr out"
    by blast
  from assms(3) sortProducts_set[OF f(2)] have "p \<in> set found" by simp
  moreover from f(1) assms(2)
  have "array_filter (title_matches (searchQuery s)) (filterByCategory s (Some raw)) = Inr found"
    by (simp add: filterProducts_def)
  ultimately have "title_matches (searchQuery s) p = Inr True"
    by (auto dest: array_filter_Inr)
  then show ?thesis by (auto split: option.splits)
qed

lemma searching_displayed: "getProcessedProducts code_unit_compare searching = Inr [lipstick]"
  by (simp add: getProcessedProducts_def filterProducts_def filterByCategory_def
      sortProducts_def string_defs sample_defs)

subsection \<open>The handlers of the hook\<close>










subsection \<open>The comparators\<close>

lemma array_sort_cmp_price: "array_sort cmp_price xs = Inr (sort_key (\<lambda>p. or_zero (price p)) xs)"
  by (rule array_sort_key) auto

lemma array_sort_cmp_title:
  assumes "\<forall>a b. (0 < lc a b) = (key b < key a)"
  shows "array_sort (cmp_title lc) xs = Inr (sort_key (\<lambda>p. key (or_empty (title p))) xs)"
  by (rule array_sort_key) (use assms in auto)

lemma array_sort_cmp_price_asc:
  assumes "\<forall>p\<in>set xs. price p \<noteq> None"
  shows "array_sort cmp_price_asc xs = Inr (sort_key (\<lambda>p. or_zero (price p)) xs)"
proof (rule array_sort_key)
  fix x y
  assume "x \<in> set xs" "y \<in> set xs"
  with assms have "price x \<noteq> None" "price y \<noteq> None" by blast+
  then obtain a b where "price x = Some a" "price y = Some b" by blast
  then show "\<exists>v. cmp_price_asc x y = Inr v
      \<and> (is_positive v \<longleftrightarrow> or_zero (price y) < or_zero (price x))"
    by (simp add: or_zero_def)
qed

lemma array_sort_cmp_price_desc:
  assumes "\<forall>p\<in>set xs. price p \<noteq> None"
  shows "array_sort cmp_price_desc xs = Inr (sort_key (\<lambda>p. - or_zero (price p)) xs)"
proof (rule array_sort_key)
  fix x y
  assume "x \<in> set xs" "y \<in> set xs"
  with assms have "price x \<noteq> None" "price y \<noteq> None" by blast+
  then obtain a b where "price x = Some a" "price y = Some b" by blast
  then show "\<exists>v. cmp_price_desc x y = Inr v
      \<and> (is_positive v \<longleftrightarrow> - or_zero (price y) < - or_zero (price x))"
    by (simp add: or_zero_def)
qed

lemma array_sort_cmp_name_asc:
  assumes "\<forall>a b. (0 < lc a b) = (key b < key a)" "\<forall>p\<in>set xs. title p \<noteq> None"
  shows "array_sort (cmp_name_asc lc) xs = Inr (sort_key (\<lambda>p. key (or_empty (title p))) xs)"
proof (rule array_sort_key)
  fix x y
  assume "x \<in> set xs" "y \<in> set xs"
  with assms(2) have "title x \<noteq> None" "title y \<noteq> None" by blast+
  then obtain a b where "title x = Some a" "title y = Some b" by blast
  then show "\<exists>v. cmp_name_asc lc x y = Inr v
      \<and> (is_positive v \<longleftrightarrow> key (or_empty (title y)) < key (or_empty (title x)))"
    using assms(1) by (simp add: or_empty_def)
qed

lemma sorted_desc: "sorted (map (\<lambda>p. - f p) xs) = sorted_wrt (\<lambda>a b. (f b :: rat) \<le> f a) xs"
  by (simp add: sorted_map)

lemma stable_desc:
  "filter (\<lambda>p. (f p :: rat) = k) (sort_key (\<lambda>p. - f p) xs) = filter (\<lambda>p. f p = k) xs"
  using sort_key_stable[of "\<lambda>p. - f p" "- k" xs] by (simp add: neg_equal_iff_equal)

lemma sorted_by_compare:
  assumes "\<forall>a b. (0 < lc a b) = (key b < key a)"
  shows "sorted_wrt (\<lambda>a b. lc (f a) (f b) \<le> (0::int)) (sort_key (\<lambda>p. key (f p)) xs)"
proof -
  have "sorted (map (\<lambda>p. key (f p)) (sort_key (\<lambda>p. key (f p)) xs))" by (rule sorted_sort_key)
  then have "sorted_wrt (\<lambda>a b. key (f a) \<le> key (f b)) (sort_key (\<lambda>p. key (f p)) xs)"
    by (simp add: sorted_map)
  then show ?thesis
    by (rule sorted_wrt_mono_rel[rotated]) (use assms in \<open>auto simp: not_less[symmetric]\<close>)
qed

lemma sortProducts_store_Inr:
  assumes "a < fresh st" "sortProducts_store lc s st a = Inr (st', b)"
  shows "cells st' a = cells st a \<and> b \<noteq> a
    \<and> sortProducts lc s (Some (cells st a)) = Inr (cells st' b)"
  using assms
  by (auto simp: sortProducts_store_def spread_def sort_in_place_def sortProducts_def
      split: if_splits sum.splits)

lemma sortProducts_price_asc:
  assumes "\<forall>p\<in>set xs. price p \<noteq> None" "sortBy s = ''price-asc''"
  shows "\<exists>out. sortProducts lc s (Some xs) = Inr out
    \<and> sorted (map (\<lambda>p. or_zero (price p)) out) \<and> mset out = mset xs
    \<and> (\<forall>k. filter (\<lambda>p. or_zero (price p) = k) out = filter (\<lambda>p. or_zero (price p) = k) xs)"
proof -
  from assms have "sortProducts lc s (Some xs) = Inr (sort_key (\<lambda>p. or_zero (price p)) xs)"
    by (simp add: sortProducts_def array_sort_cmp_price_asc)
  then show ?thesis by (simp add: sort_key_stable)
qed

lemma sortProducts_price_desc:
  assumes "\<forall>p\<in>set xs. price p \<noteq> None" "sortBy s = ''price-desc''"
  shows "\<exists>out. sortProducts lc s (Some xs) = Inr out
    \<and> sorted_wrt (\<lambda>a b. or_zero (price b) \<le> or_zero (price a)) out \<and> mset out = mset xs
    \<and> (\<forall>k. filter (\<lambda>p. or_zero (price p) = k) out = filter (\<lambda>p. or_zero (price p) = k) xs)"
proof -
  from assms have "sortProducts lc s (Some xs) = Inr (sort_key (\<lambda>p. - or_zero (price p)) xs)"
    by (simp add: sortProducts_def array_sort_cmp_price_desc)
  moreover have "sorted_wrt (\<lambda>a b. or_zero (price b) \<le> or_zero (price a))
      (sort_key (\<lambda>p. - or_zero (price p)) xs)"
    using sorted_sort_key[of "\<lambda>p. - or_zero (price p)" xs] by (simp only: sorted_desc)
  ultimately show ?thesis by (simp add: stable_desc)
qed

lemma sortProducts_name_asc:
  fixes key :: "string \<Rightarrow> 'k::linorder"
  assumes "\<forall>p\<in>set xs. title p \<noteq> None" "\<forall>a b. (0 < lc a b) = (key b < key a)"
    "sortBy s = ''name-asc''"
  shows "\<exists>out. sortProducts lc s (Some xs) = Inr out
    \<and> sorted_wrt (\<lambda>a b. lc (or_empty (title a)) (or_empty (title b)) \<le> 0) out
    \<and> mset out = mset xs
    \<and> (\<forall>k. filter (\<lambda>p. key (or_empty (title p)) = k) out
           = filter (\<lambda>p. key (or_empty (title p)) = k) xs)"
proof -
  from assms have "sortProducts lc s (Some xs) = Inr (sort_key (\<lambda>p. key (or_empty (title p))) xs)"
    by (simp add: sortProducts_def array_sort_cmp_name_asc)
  moreover have "sorted_wrt (\<lambda>a b. lc (or_empty (title a)) (or_empty (title b)) \<le> 0)
      (sort_key (\<lambda>p. key (or_empty (title p))) xs)"
    using sorted_by_compare[OF assms(2), of "\<lambda>p. or_empty (title p)" xs] .
  ultimately show ?thesis by (simp add: sort_key_stable)
qed

subsection \<open>The screen and the projection of the specification\<close>






text \<open>
  The screen trims the search text only to see whether it is blank, and matches the
  text as typed: with a space after \<open>lip\<close> the lipstick is not found, where the
  projection of the specification finds it.
\<close>

lemma search_text_not_trimmed:
  "getProcessedProducts code_unit_compare (searching\<lparr>searchQuery := ''lip ''\<rparr>) = Inr []
   \<and> project code_units [iphone, samsung, lipstick]
        \<lparr>searchText = ''lip '', category_q = ''all'', sortKey_q = Name_asc\<rparr> = [lipstick]"
  by (simp add: getProcessedProducts_def filterProducts_def filterByCategory_def sortProducts_def
      project_def spec_search_stage_def spec_category_stage_def string_defs sample_defs)

subsection \<open>The runs of the detail hook\<close>

lemma length_cleanup [simp]: "length (cleanup rs) = length rs"
  by (cases rs rule: rev_cases) (simp_all add: cleanup_def)

lemma cleanup_nth:
  "k < length rs \<Longrightarrow> rs ! k \<noteq> InFlight \<Longrightarrow> cleanup rs ! k \<noteq> InFlight"
  by (cases rs rule: rev_cases) (auto simp: cleanup_def nth_append)

lemma cleanup_all:
  assumes "\<forall>k. Suc k < length rs \<longrightarrow> rs ! k \<noteq> InFlight" "k < length rs"
  shows "cleanup rs ! k \<noteq> InFlight"
proof (cases rs rule: rev_cases)
  case Nil
  with assms show ?thesis by simp
next
  case (snoc ys y)
  with assms show ?thesis by (auto simp: cleanup_def nth_append)
qed

lemma length_runs_step: "length (runs s) \<le> length (runs (step s e))"
  by (cases e) (auto split: run.splits)

lemma step_keeps_done:
  "k < length (runs s) \<Longrightarrow> runs s ! k \<noteq> InFlight \<Longrightarrow> runs (step s e) ! k \<noteq> InFlight"
  by (cases e) (auto simp: nth_append cleanup_nth nth_list_update split: run.splits)

lemma run_keeps_done:
  "k < length (runs s) \<Longrightarrow> runs s ! k \<noteq> InFlight \<Longrightarrow>
   k < length (runs (foldl step s es)) \<and> runs (foldl step s es) ! k \<noteq> InFlight"
proof (induction es arbitrary: s)
  case Nil
  then show ?case by simp
next
  case (Cons e es)
  have "k < length (runs (step s e))" using Cons.prems(1) length_runs_step[of s e] by simp
  moreover have "runs (step s e) ! k \<noteq> InFlight" using Cons.prems by (rule step_keeps_done)
  ultimately show ?case using Cons.IH by simp
qed

lemma only_last_step: "only_last s \<Longrightarrow> only_last (step s e)"
  unfolding only_last_def
  by (cases e) (auto simp: nth_append cleanup_nth cleanup_all nth_list_update split: run.splits)

lemma only_last_run: "only_last s \<Longrightarrow> only_last (foldl step s es)"
  by (induction es arbitrary: s) (simp_all add: only_last_step)

lemma only_last_init: "only_last useProductDetail_init"
  by (simp add: only_last_def useProductDetail_init_def)

lemma settle_discarded:
  "k < length (runs s) \<Longrightarrow> runs s ! k \<noteq> InFlight \<Longrightarrow> view (step s (Settle k r)) = view s"
  by (auto simp: view_def split: run.splits)

lemma after_cancel:
  assumes "only_last s" "k < length (runs s)" "e = Unmount \<or> e = Effect"
  shows "k < length (runs (step s e)) \<and> runs (step s e) ! k \<noteq> InFlight"
  using assms cleanup_all[of "runs s" k]
  by (auto simp: only_last_def nth_append)

lemma late_settle_discarded:
  assumes "only_last s" "k < length (runs s)" "e = Unmount \<or> e = Effect"
  shows "view (step (foldl step (step s e) es) (Settle k r)) = view (foldl step (step s e) es)"
proof -
  from after_cancel[OF assms]
  have "k < length (runs (step s e))" "runs (step s e) ! k \<noteq> InFlight" by simp_all
  then have "k < length (runs (foldl step (step s e) es))
      \<and> runs (foldl step (step s e) es) ! k \<noteq> InFlight"
    by (rule run_keeps_done)
  then show ?thesis using settle_discarded by blast
qed

lemma none_in_flight_settle:
  "none_in_flight s \<Longrightarrow> none_in_flight (step s (Settle k r)) \<and> view (step s (Settle k r)) = view s"
  unfolding none_in_flight_def
  by (auto simp: view_def nth_list_update split: run.splits)

lemma settles_after_unmount:
  "none_in_flight s \<Longrightarrow> view (foldl step s (map (\<lambda>(k, r). Settle k r) ks)) = view s"
proof (induction ks arbitrary: s)
  case Nil
  then show ?case by simp
next
  case (Cons a ks)
  obtain k r where a: "a = (k, r)" by (cases a)
  from none_in_flight_settle[OF Cons.prems, of k r]
  have "none_in_flight (step s (Settle k r))" "view (step s (Settle k r)) = view s" by simp_all
  with Cons.IH[of "step s (Settle k r)"] a show ?case by simp
qed

lemma unmount_none_in_flight: "only_last s \<Longrightarrow> none_in_flight (step s Unmount)"
  using cleanup_all[of "runs s"] by (simp add: none_in_flight_def only_last_def)

lemma view_unmount: "view (step s Unmount) = view s"
  by (simp add: view_def)

lemma settled_shape_step: "settled_shape s \<Longrightarrow> settled_shape (step s e)"
proof (cases e)
  case (Settle k r)
  assume "settled_shape s"
  then show ?thesis using Settle
    by (cases r) (auto simp: settled_shape_def split: run.splits)
qed (auto simp: settled_shape_def)

lemma settled_shape_run: "settled_shape s \<Longrightarrow> settled_shape (foldl step s es)"
  by (induction es arbitrary: s) (simp_all add: settled_shape_step)

lemma no_success_step:
  "product_d s = None \<Longrightarrow> (\<forall>k d. e \<noteq> Settle k (Inr (Some d))) \<Longrightarrow> product_d (step s e) = None"
proof (cases e)
  case (Settle k r)
  assume "product_d s = None" "\<forall>k d. e \<noteq> Settle k (Inr (Some d))"
  with Settle show ?thesis by (cases r) (auto split: run.splits option.splits)
qed auto

lemma no_success_run:
  "product_d s = None \<Longrightarrow> (\<forall>k d. Settle k (Inr (Some d)) \<notin> set es) \<Longrightarrow>
   product_d (foldl step s es) = None"
proof (induction es arbitrary: s)
  case Nil
  then show ?case by simp
next
  case (Cons e es)
  from Cons.prems have "product_d (step s e) = None" by (intro no_success_step) auto
  with Cons show ?case by simp
qed

lemma cleanup_none_in_flight:
  assumes "\<forall>k. Suc k < length rs \<longrightarrow> rs ! k \<noteq> InFlight"
  shows "\<forall>k < length (cleanup rs). cleanup rs ! k \<noteq> InFlight"
  using assms cleanup_all[of rs] by simp

lemma live_is_loading_step: "live_is_loading s \<Longrightarrow> live_is_loading (step s e)"
proof (cases e)
  case Effect
  assume "live_is_loading s"
  then have "only_last (step s e)" by (simp add: live_is_loading_def only_last_step)
  with Effect show ?thesis by (simp add: live_is_loading_def)
next
  case Unmount
  assume a: "live_is_loading s"
  then have "only_last (step s e)" by (simp add: live_is_loading_def only_last_step)
  moreover from a have "\<forall>k < length (cleanup (runs s)). cleanup (runs s) ! k \<noteq> InFlight"
    by (intro cleanup_none_in_flight) (simp add: live_is_loading_def only_last_def)
  ultimately show ?thesis using Unmount by (auto simp: live_is_loading_def)
next
  case (Settle k r)
  assume a: "live_is_loading s"
  then have ol: "only_last (step s e)" by (simp add: live_is_loading_def only_last_step)
  show ?thesis
  proof (cases "k < length (runs s) \<and> runs s ! k = InFlight")
    case True
    with a have last: "Suc k = length (runs s)"
      by (metis Suc_lessI live_is_loading_def only_last_def)
    have "\<forall>j < length (runs s). (runs s)[k := Settled] ! j \<noteq> InFlight"
    proof (intro allI impI)
      fix j assume j: "j < length (runs s)"
      show "(runs s)[k := Settled] ! j \<noteq> InFlight"
      proof (cases "j = k")
        case True
        with j show ?thesis by simp
      next
        case False
        with j last have "Suc j < length (runs s)" by simp
        with a have "runs s ! j \<noteq> InFlight" by (simp add: live_is_loading_def only_last_def)
        with False show ?thesis by simp
      qed
    qed
    with True Settle ol show ?thesis by (cases r) (simp_all add: live_is_loading_def)
  next
    case False
    with a Settle ol show ?thesis
      by (auto simp: live_is_loading_def nth_list_update split: run.splits if_splits)
  qed
qed

lemma live_is_loading_run: "live_is_loading s \<Longrightarrow> live_is_loading (foldl step s es)"
  by (induction es arbitrary: s) (simp_all add: live_is_loading_step)

lemma live_is_loading_init: "live_is_loading useProductDetail_init"
  by (simp add: live_is_loading_def only_last_def useProductDetail_init_def)

lemma live_success:
  assumes "live_is_loading s" "k < length (runs s)" "runs s ! k = InFlight"
  shows "view (step s (Settle k (Inr d))) = (d, False, None)"
  using assms by (auto simp: live_is_loading_def view_def)

lemma live_failure:
  assumes "live_is_loading s" "k < length (runs s)" "runs s ! k = InFlight"
  shows "view (step s (Settle k (Inl err))) =
     (product_d s, False, Some (if message err = [] then ''Failed to fetch product'' else message err))"
  using assms by (auto simp: live_is_loading_def view_def)

text \<open>
  The screen sorts with \<open>localeCompare\<close> as it is, which tells letter case apart: two
  titles that differ in case only are put in the comparator's order, where the
  projection of the specification leaves them in the order of the input. Here the
  comparator is the order of the code units.
\<close>

lemma name_order_tells_case_apart:
  "getProcessedProducts code_unit_compare
     \<lparr>products = Some [lower_abc, upper_abc], searchQuery = [], sortBy = ''name-asc'',
        filterCategory = ''all''\<rparr> = Inr [upper_abc, lower_abc]
   \<and> project code_units [lower_abc, upper_abc]
        \<lparr>searchText = [], category_q = ''all'', sortKey_q = Name_asc\<rparr> = [lower_abc, upper_abc]"
  by (simp add: getProcessedProducts_def filterProducts_def filterByCategory_def sortProducts_def
      project_def spec_search_stage_def spec_category_stage_def string_defs sample_defs
      code_units_def)

section \<open>Category narrowing\<close>

text \<open>
  Claim C1, on the hook: \<open>handleFilter\<close> compares the lower-cased categories, so a
  request for \<open>BEAUTY\<close> keeps a product whose category is \<open>beauty\<close>: an element of the
  visible list whose category is not exactly the requested one.
\<close>

theorem handleFilter_ignores_case:
  "filteredProducts (handleFilter (Some ''BEAUTY'') loaded) = [lipstick]
   \<and> category lipstick \<noteq> Some ''BEAUTY''"
  by (simp add: handleFilter_def string_defs sample_defs)

text \<open>
  Claim C1, as the code has it. In the screen's pipeline, when the category of the
  query is not \<open>all\<close>, every product of the displayed list has exactly that category.
  In the hook, \<open>handleFilter\<close> with a category that is not blank and not \<open>all\<close> in any
  letter case makes the visible list exactly the raw products whose category equals
  the requested one up to letter case (an absent category counts as the empty
  string), in their order; with a category that is missing, blank or \<open>all\<close> in any
  letter case it makes the visible list the raw products. Nothing else of the state
  changes.
\<close>

theorem category_narrowing:
  "(getProcessedProducts lc s = Inr out \<longrightarrow> filterCategory s \<noteq> ''all'' \<longrightarrow>
      (\<forall>p\<in>set out. category p = Some (filterCategory s)))
   \<and> (trim c \<noteq> [] \<longrightarrow> toLowerCase c \<noteq> ''all'' \<longrightarrow>
      handleFilter (Some c) h =
        h\<lparr>filteredProducts :=
            filter (\<lambda>p. toLowerCase (or_empty (category p)) = toLowerCase c) (products_u h)\<rparr>
      \<and> (\<forall>p\<in>set (filteredProducts (handleFilter (Some c) h)).
         toLowerCase (or_empty (category p)) = toLowerCase c))
   \<and> (trim c = [] \<or> toLowerCase c = ''all'' \<longrightarrow>
      handleFilter (Some c) h = h\<lparr>filteredProducts := products_u h\<rparr>)
   \<and> handleFilter None h = h\<lparr>filteredProducts := products_u h\<rparr>"
proof (intro conjI impI ballI)
  fix p
  assume "getProcessedProducts lc s = Inr out" "filterCategory s \<noteq> ''all''" "p \<in> set out"
  then show "category p = Some (filterCategory s)" by (rule getProcessedProducts_category)
next
  assume c: "trim c \<noteq> []" "toLowerCase c \<noteq> ''all''"
  from c(1) have "c \<noteq> []" by (auto simp: trim_def)
  with c show "handleFilter (Some c) h =
        h\<lparr>filteredProducts :=
            filter (\<lambda>p. toLowerCase (or_empty (category p)) = toLowerCase c) (products_u h)\<rparr>"
    by (simp add: handleFilter_def)
next
  fix p
  assume c: "trim c \<noteq> []" "toLowerCase c \<noteq> ''all''"
    and p: "p \<in> set (filteredProducts (handleFilter (Some c) h))"
  from c(1) have "c \<noteq> []" by (auto simp: trim_def)
  with c p show "toLowerCase (or_empty (category p)) = toLowerCase c"
    by (simp add: handleFilter_def)
next
  assume "trim c = [] \<or> toLowerCase c = ''all''"
  then show "handleFilter (Some c) h = h\<lparr>filteredProducts := products_u h\<rparr>"
    by (auto simp: handleFilter_def)
next
  show "handleFilter None h = h\<lparr>filteredProducts := products_u h\<rparr>"
    by (simp add: handleFilter_def)
qed

text \<open>
  The theorem of claim C1 at the scenario of the specification (category
  \<open>smartphones\<close>) and at the requests \<open>BEAUTY\<close> and \<open>ALL\<close> of the hook.
\<close>

theorem category_narrowing_witness:
  "getProcessedProducts code_unit_compare browsing = Inr [samsung, iphone]
   \<and> filterCategory browsing \<noteq> ''all''
   \<and> category samsung = Some (filterCategory browsing)
   \<and> category iphone = Some (filterCategory browsing)
   \<and> trim ''BEAUTY'' \<noteq> [] \<and> toLowerCase ''BEAUTY'' \<noteq> ''all''
   \<and> handleFilter (Some ''BEAUTY'') loaded = loaded\<lparr>filteredProducts := [lipstick]\<rparr>
   \<and> toLowerCase (or_empty (category lipstick)) = toLowerCase ''BEAUTY''
   \<and> toLowerCase ''ALL'' = ''all''
   \<and> handleFilter (Some ''ALL'') (loaded\<lparr>filteredProducts := [lipstick]\<rparr>) = loaded"
proof -
  have h1: "getProcessedProducts code_unit_compare browsing = Inr [samsung, iphone]"
    by (rule browsing_displayed)
  have h2: "filterCategory browsing \<noteq> ''all''" by (simp add: browsing_def)
  have h3: "trim ''BEAUTY'' \<noteq> []" "toLowerCase ''BEAUTY'' \<noteq> ''all''"
    by (simp_all add: string_defs)
  have h4: "filter (\<lambda>p. toLowerCase (or_empty (category p)) = toLowerCase ''BEAUTY'')
      (products_u loaded) = [lipstick]"
    by (simp add: string_defs sample_defs)
  have h5: "toLowerCase ''ALL'' = ''all''" by (simp add: string_defs)
  have h6: "(loaded\<lparr>filteredProducts := [lipstick]\<rparr>)
      \<lparr>filteredProducts := products_u (loaded\<lparr>filteredProducts := [lipstick]\<rparr>)\<rparr> = loaded"
    by (simp add: loaded_def)
  note inst = category_narrowing [of code_unit_compare browsing "[samsung, iphone]" "''BEAUTY''" loaded]
  from inst h1 h2 have "\<forall>p\<in>set [samsung, iphone]. category p = Some (filterCategory browsing)"
    by blast
  then have a: "category samsung = Some (filterCategory browsing)"
    "category iphone = Some (filterCategory browsing)"
    by simp_all
  from inst h3 have "handleFilter (Some ''BEAUTY'') loaded =
        loaded\<lparr>filteredProducts :=
            filter (\<lambda>p. toLowerCase (or_empty (category p)) = toLowerCase ''BEAUTY'')
              (products_u loaded)\<rparr>"
    by blast
  with h4 have b: "handleFilter (Some ''BEAUTY'') loaded = loaded\<lparr>filteredProducts := [lipstick]\<rparr>"
    by simp
  from inst h3
  have "\<forall>p\<in>set (filteredProducts (handleFilter (Some ''BEAUTY'') loaded)).
         toLowerCase (or_empty (category p)) = toLowerCase ''BEAUTY''"
    by blast
  with b have c: "toLowerCase (or_empty (category lipstick)) = toLowerCase ''BEAUTY''"
    by simp
  from category_narrowing [where c = "''ALL''" and h = "loaded\<lparr>filteredProducts := [lipstick]\<rparr>"] h5
  have "handleFilter (Some ''ALL'') (loaded\<lparr>filteredProducts := [lipstick]\<rparr>) =
      (loaded\<lparr>filteredProducts := [lipstick]\<rparr>)
        \<lparr>filteredProducts := products_u (loaded\<lparr>filteredProducts := [lipstick]\<rparr>)\<rparr>"
    by blast
  with h6 have d: "handleFilter (Some ''ALL'') (loaded\<lparr>filteredProducts := [lipstick]\<rparr>) = loaded"
    by (simp only:)
  show ?thesis using h1 h2 h3 h5 a b c d by blast
qed

section \<open>The displayed list as a projection of the raw collection\<close>




section \<open>Search containment\<close>

text \<open>
  Claim C3, on the hook: \<open>handleSearch\<close> also looks in the description, so a search
  for \<open>matte\<close> keeps the lipstick, whose title does not contain the search text.
\<close>

theorem handleSearch_matches_description:
  "trim ''matte'' \<noteq> []
   \<and> filteredProducts (handleSearch ''matte'' loaded) = [lipstick]
   \<and> title lipstick = Some ''Red Lipstick''
   \<and> \<not> includes_str (toLowerCase ''Red Lipstick'') (toLowerCase (trim ''matte''))"
  by (simp add: handleSearch_def string_defs sample_defs)

text \<open>
  Claim C3, as the code has it. In the screen's pipeline, when the search text is not
  blank, every product of the displayed list has a title, and the lower-cased title
  contains the lower-cased search text, also after trimming it. In the hook,
  \<open>handleSearch\<close> with a text that is not blank makes the visible list exactly the raw
  products whose lower-cased title or lower-cased description contains the
  lower-cased text as typed, not trimmed (an absent field counts as the empty
  string), in their order; each of them then contains the trimmed, lower-cased text
  in the title or in the description. With a blank text it makes the visible list
  the raw products. Nothing else of the state changes.
\<close>

theorem search_containment:
  "(getProcessedProducts lc s = Inr out \<longrightarrow> trim (searchQuery s) \<noteq> [] \<longrightarrow>
      (\<forall>p\<in>set out. \<exists>t. title p = Some t
          \<and> includes_str (toLowerCase t) (toLowerCase (searchQuery s))
          \<and> includes_str (toLowerCase t) (toLowerCase (trim (searchQuery s)))))
   \<and> (trim query \<noteq> [] \<longrightarrow>
      handleSearch query h =
        h\<lparr>filteredProducts :=
            filter (\<lambda>p. includes_str (toLowerCase (or_empty (title p))) (toLowerCase query)
                      \<or> includes_str (toLowerCase (or_empty (description p))) (toLowerCase query))
              (products_u h)\<rparr>
      \<and> (\<forall>p\<in>set (filteredProducts (handleSearch query h)).
          includes_str (toLowerCase (or_empty (title p))) (toLowerCase (trim query))
          \<or> includes_str (toLowerCase (or_empty (description p))) (toLowerCase (trim query))))
   \<and> (trim query = [] \<longrightarrow> handleSearch query h = h\<lparr>filteredProducts := products_u h\<rparr>)"
proof (intro conjI impI ballI)
  fix p
  assume "getProcessedProducts lc s = Inr out" "trim (searchQuery s) \<noteq> []" "p \<in> set out"
  then obtain t where "title p = Some t"
    "includes_str (toLowerCase t) (toLowerCase (searchQuery s))"
    using getProcessedProducts_title by blast
  then show "\<exists>t. title p = Some t
          \<and> includes_str (toLowerCase t) (toLowerCase (searchQuery s))
          \<and> includes_str (toLowerCase t) (toLowerCase (trim (searchQuery s)))"
    using includes_trimmed by blast
next
  assume "trim query \<noteq> []"
  then show "handleSearch query h =
        h\<lparr>filteredProducts :=
            filter (\<lambda>p. includes_str (toLowerCase (or_empty (title p))) (toLowerCase query)
                      \<or> includes_str (toLowerCase (or_empty (description p))) (toLowerCase query))
              (products_u h)\<rparr>"
    by (simp add: handleSearch_def)
next
  fix p
  assume "trim query \<noteq> []" "p \<in> set (filteredProducts (handleSearch query h))"
  then have "includes_str (toLowerCase (or_empty (title p))) (toLowerCase query)
          \<or> includes_str (toLowerCase (or_empty (description p))) (toLowerCase query)"
    by (simp add: handleSearch_def)
  then show "includes_str (toLowerCase (or_empty (title p))) (toLowerCase (trim query))
          \<or> includes_str (toLowerCase (or_empty (description p))) (toLowerCase (trim query))"
    using includes_trimmed by blast
next
  assume "trim query = []"
  then show "handleSearch query h = h\<lparr>filteredProducts := products_u h\<rparr>"
    by (simp add: handleSearch_def)
qed

text \<open>
  The theorem of claim C3 at the search \<open>Lip\<close> on the screen, and in the hook at
  \<open>matte\<close>, at \<open>matte\<close> followed by two spaces, which no description contains, and
  at a text of two spaces.
\<close>

theorem search_containment_witness:
  "getProcessedProducts code_unit_compare searching = Inr [lipstick]
   \<and> trim (searchQuery searching) \<noteq> []
   \<and> title lipstick = Some ''Red Lipstick''
   \<and> includes_str (toLowerCase ''Red Lipstick'') (toLowerCase (trim (searchQuery searching)))
   \<and> trim ''matte'' \<noteq> []
   \<and> handleSearch ''matte'' loaded = loaded\<lparr>filteredProducts := [lipstick]\<rparr>
   \<and> includes_str (toLowerCase (or_empty (description lipstick))) (toLowerCase (trim ''matte''))
   \<and> trim ''matte  '' \<noteq> []
   \<and> handleSearch ''matte  '' loaded = loaded\<lparr>filteredProducts := []\<rparr>
   \<and> trim ''  '' = []
   \<and> handleSearch ''  '' (loaded\<lparr>filteredProducts := []\<rparr>) = loaded"
proof -
  let ?keep = "\<lambda>q p. includes_str (toLowerCase (or_empty (title p))) (toLowerCase q)
      \<or> includes_str (toLowerCase (or_empty (description p))) (toLowerCase q)"
  have h1: "getProcessedProducts code_unit_compare searching = Inr [lipstick]"
    by (rule searching_displayed)
  have h2: "trim (searchQuery searching) \<noteq> []" "trim ''matte'' \<noteq> []"
    "trim ''matte  '' \<noteq> []" "trim ''  '' = []"
    by (simp_all add: string_defs sample_defs)
  have h3: "filter (?keep ''matte'') (products_u loaded) = [lipstick]"
    "filter (?keep ''matte  '') (products_u loaded) = []"
    by (simp_all add: string_defs sample_defs)
  have h4: "title lipstick = Some ''Red Lipstick''" by (simp add: lipstick_def)
  have h5: "\<not> includes_str (toLowerCase (or_empty (title lipstick))) (toLowerCase (trim ''matte''))"
    by (simp add: string_defs sample_defs)
  have h6: "(loaded\<lparr>filteredProducts := []\<rparr>)
      \<lparr>filteredProducts := products_u (loaded\<lparr>filteredProducts := []\<rparr>)\<rparr> = loaded"
    by (simp add: loaded_def)
  note inst = search_containment [where lc = code_unit_compare and s = searching
      and out = "[lipstick]" and query = "''matte''" and h = loaded]
  from inst h1 h2(1)
  have "\<forall>p\<in>set [lipstick]. \<exists>t. title p = Some t
          \<and> includes_str (toLowerCase t) (toLowerCase (searchQuery searching))
          \<and> includes_str (toLowerCase t) (toLowerCase (trim (searchQuery searching)))"
    by blast
  with h4 have a: "includes_str (toLowerCase ''Red Lipstick'')
      (toLowerCase (trim (searchQuery searching)))"
    by simp
  from inst h2(2)
  have "handleSearch ''matte'' loaded =
      loaded\<lparr>filteredProducts := filter (?keep ''matte'') (products_u loaded)\<rparr>"
    by blast
  with h3(1) have b: "handleSearch ''matte'' loaded = loaded\<lparr>filteredProducts := [lipstick]\<rparr>"
    by (simp only:)
  from inst h2(2)
  have "\<forall>p\<in>set (filteredProducts (handleSearch ''matte'' loaded)).
          includes_str (toLowerCase (or_empty (title p))) (toLowerCase (trim ''matte''))
          \<or> includes_str (toLowerCase (or_empty (description p))) (toLowerCase (trim ''matte''))"
    by blast
  with b h5 have c: "includes_str (toLowerCase (or_empty (description lipstick)))
      (toLowerCase (trim ''matte''))"
    by simp
  from search_containment [where query = "''matte  ''" and h = loaded] h2(3)
  have "handleSearch ''matte  '' loaded =
      loaded\<lparr>filteredProducts := filter (?keep ''matte  '') (products_u loaded)\<rparr>"
    by blast
  with h3(2) have d: "handleSearch ''matte  '' loaded = loaded\<lparr>filteredProducts := []\<rparr>"
    by (simp only:)
  from search_containment [where query = "''  ''" and h = "loaded\<lparr>filteredProducts := []\<rparr>"] h2(4)
  have "handleSearch ''  '' (loaded\<lparr>filteredProducts := []\<rparr>) =
      (loaded\<lparr>filteredProducts := []\<rparr>)
        \<lparr>filteredProducts := products_u (loaded\<lparr>filteredProducts := []\<rparr>)\<rparr>"
    by blast
  with h6 have e: "handleSearch ''  '' (loaded\<lparr>filteredProducts := []\<rparr>) = loaded"
    by (simp only:)
  show ?thesis using h1 h2 h4 a b c d e by blast
qed

section \<open>The sort keys of the hook\<close>

text \<open>
  Claim C10. In the hook, \<open>handleSort\<close> with a key other than \<open>title\<close> and \<open>price\<close>
  (the names \<open>name-asc\<close>, \<open>price-asc\<close> and \<open>price-desc\<close> are such keys) returns the
  state with the same visible list, element for element. With \<open>title\<close> the visible
  list is sorted ascending and stably by title, for a \<open>localeCompare\<close> that is
  positive exactly when the collation key of its receiver is the greater one; with
  \<open>price\<close> it is sorted ascending and stably by price. An absent title counts as the
  empty string, an absent price as zero.
\<close>

theorem handleSort_keys:
  "(k \<noteq> ''title'' \<longrightarrow> k \<noteq> ''price'' \<longrightarrow>
      handleSort lc k h = Inr (h\<lparr>filteredProducts := filteredProducts h\<rparr>))
   \<and> handleSort lc ''name-asc'' h = Inr h
   \<and> handleSort lc ''price-asc'' h = Inr h
   \<and> handleSort lc ''price-desc'' h = Inr h
   \<and> ((\<forall>a b. (0 < lc a b) = (key b < key a)) \<longrightarrow>
      handleSort lc ''title'' h =
        Inr (h\<lparr>filteredProducts := sort_key (\<lambda>p. key (or_empty (title p))) (filteredProducts h)\<rparr>))
   \<and> handleSort lc ''price'' h =
        Inr (h\<lparr>filteredProducts := sort_key (\<lambda>p. or_zero (price p)) (filteredProducts h)\<rparr>)"
proof (intro conjI impI)
  assume "k \<noteq> ''title''" "k \<noteq> ''price''"
  then show "handleSort lc k h = Inr (h\<lparr>filteredProducts := filteredProducts h\<rparr>)"
    by (simp add: handleSort_def)
next
  show "handleSort lc ''name-asc'' h = Inr h" by (simp add: handleSort_def)
  show "handleSort lc ''price-asc'' h = Inr h" by (simp add: handleSort_def)
  show "handleSort lc ''price-desc'' h = Inr h" by (simp add: handleSort_def)
  show "handleSort lc ''price'' h =
        Inr (h\<lparr>filteredProducts := sort_key (\<lambda>p. or_zero (price p)) (filteredProducts h)\<rparr>)"
    by (simp add: handleSort_def array_sort_cmp_price)
next
  assume "\<forall>a b. (0 < lc a b) = (key b < key a)"
  then have "array_sort (cmp_title lc) (filteredProducts h)
      = Inr (sort_key (\<lambda>p. key (or_empty (title p))) (filteredProducts h))"
    by (rule array_sort_cmp_title)
  then show "handleSort lc ''title'' h =
        Inr (h\<lparr>filteredProducts := sort_key (\<lambda>p. key (or_empty (title p))) (filteredProducts h)\<rparr>)"
    by (simp add: handleSort_def)
qed

text \<open>
  The theorem of claim C10 on the three loaded products, for the key \<open>price-desc\<close>
  and for \<open>title\<close> under the order of the code units.
\<close>

theorem handleSort_keys_witness:
  "''price-desc'' \<noteq> ''title'' \<and> ''price-desc'' \<noteq> ''price''
   \<and> handleSort code_unit_compare ''price-desc'' loaded = Inr loaded
   \<and> (\<forall>a b. (0 < code_unit_compare a b) = (code_units b < code_units a))
   \<and> sort_key (\<lambda>p. code_units (or_empty (title p))) (filteredProducts loaded)
       = [lipstick, samsung, iphone]
   \<and> handleSort code_unit_compare ''title'' loaded
       = Inr (loaded\<lparr>filteredProducts := [lipstick, samsung, iphone]\<rparr>)"
proof -
  have h1: "''price-desc'' \<noteq> ''title''" "''price-desc'' \<noteq> ''price''" by simp_all
  have h2: "\<forall>a b. (0 < code_unit_compare a b) = (code_units b < code_units a)"
    by (simp add: code_unit_compare_key)
  have h3: "handleSort code_unit_compare ''title'' loaded
       = Inr (loaded\<lparr>filteredProducts := [lipstick, samsung, iphone]\<rparr>)"
    by (simp add: handleSort_def sample_defs or_empty_def)
  note inst = handleSort_keys [where k = "''price-desc''" and lc = code_unit_compare
      and h = loaded and key = code_units]
  from inst h1 have a: "handleSort code_unit_compare ''price-desc'' loaded = Inr loaded"
    by simp
  from inst h2 have "handleSort code_unit_compare ''title'' loaded =
        Inr (loaded\<lparr>filteredProducts :=
          sort_key (\<lambda>p. code_units (or_empty (title p))) (filteredProducts loaded)\<rparr>)"
    by blast
  with h3 have "loaded\<lparr>filteredProducts :=
          sort_key (\<lambda>p. code_units (or_empty (title p))) (filteredProducts loaded)\<rparr>
      = loaded\<lparr>filteredProducts := [lipstick, samsung, iphone]\<rparr>"
    by simp
  then have "filteredProducts (loaded\<lparr>filteredProducts :=
          sort_key (\<lambda>p. code_units (or_empty (title p))) (filteredProducts loaded)\<rparr>)
      = filteredProducts (loaded\<lparr>filteredProducts := [lipstick, samsung, iphone]\<rparr>)"
    by (rule arg_cong)
  then have b: "sort_key (\<lambda>p. code_units (or_empty (title p))) (filteredProducts loaded)
       = [lipstick, samsung, iphone]"
    by simp
  show ?thesis using h1 h2 h3 a b by blast
qed

section \<open>The sort stage\<close>

text \<open>
  Claim C4, on the hook: \<open>handleSort\<close> does not know the key \<open>price-desc\<close>; the
  visible list stays as it was, with a price of 549 before one of 1249, which is not
  non-increasing.
\<close>

theorem handleSort_price_desc_unsorted:
  "handleSort code_unit_compare ''price-desc'' loaded = Inr loaded
   \<and> filteredProducts loaded = [iphone, samsung, lipstick]
   \<and> \<not> sorted_wrt (\<lambda>a b. or_zero (price b) \<le> or_zero (price a)) (filteredProducts loaded)"
  by (simp add: handleSort_def sample_defs or_zero_def)

text \<open>
  Claim C4, as the code has it. For \<open>sortProducts\<close> of the screen and a list whose
  products all have a price, the output under \<open>price-asc\<close> is non-decreasing in
  price and under \<open>price-desc\<close> non-increasing; for a list whose products all have
  a title and a \<open>localeCompare\<close> that is positive exactly when the collation key of
  its receiver is the greater one, the output under \<open>name-asc\<close> has no pair out of
  order for \<open>localeCompare\<close>. In each case the output is a permutation of the input
  in which the products of equal sort key keep their order. The sort works on a fresh
  copy: the array passed in keeps its content. In the hook, \<open>handleSort\<close> leaves the
  visible list as it is for the keys \<open>name-asc\<close>, \<open>price-asc\<close> and \<open>price-desc\<close>.
\<close>

theorem sort_stage:
  fixes key :: "string \<Rightarrow> 'k::linorder"
  shows
  "((\<forall>p\<in>set xs. price p \<noteq> None) \<longrightarrow> sortBy s = ''price-asc'' \<longrightarrow>
      (\<exists>out. sortProducts lc s (Some xs) = Inr out
         \<and> sorted (map (\<lambda>p. or_zero (price p)) out) \<and> mset out = mset xs
         \<and> (\<forall>k. filter (\<lambda>p. or_zero (price p) = k) out
                = filter (\<lambda>p. or_zero (price p) = k) xs)))
   \<and> ((\<forall>p\<in>set xs. price p \<noteq> None) \<longrightarrow> sortBy s = ''price-desc'' \<longrightarrow>
      (\<exists>out. sortProducts lc s (Some xs) = Inr out
         \<and> sorted_wrt (\<lambda>a b. or_zero (price b) \<le> or_zero (price a)) out \<and> mset out = mset xs
         \<and> (\<forall>k. filter (\<lambda>p. or_zero (price p) = k) out
                = filter (\<lambda>p. or_zero (price p) = k) xs)))
   \<and> ((\<forall>p\<in>set xs. title p \<noteq> None) \<longrightarrow> (\<forall>a b. (0 < lc a b) = (key b < key a)) \<longrightarrow>
      sortBy s = ''name-asc'' \<longrightarrow>
      (\<exists>out. sortProducts lc s (Some xs) = Inr out
         \<and> sorted_wrt (\<lambda>a b. lc (or_empty (title a)) (or_empty (title b)) \<le> 0) out
         \<and> mset out = mset xs
         \<and> (\<forall>k. filter (\<lambda>p. key (or_empty (title p)) = k) out
                = filter (\<lambda>p. key (or_empty (title p)) = k) xs)))
   \<and> (a < fresh st \<longrightarrow> sortProducts_store lc s st a = Inr (st', b) \<longrightarrow>
      cells st' a = cells st a \<and> b \<noteq> a
      \<and> sortProducts lc s (Some (cells st a)) = Inr (cells st' b))
   \<and> handleSort lc ''name-asc'' h = Inr h
   \<and> handleSort lc ''price-asc'' h = Inr h
   \<and> handleSort lc ''price-desc'' h = Inr h"
proof -
  have "handleSort lc ''name-asc'' h = Inr h" "handleSort lc ''price-asc'' h = Inr h"
    "handleSort lc ''price-desc'' h = Inr h"
    by (simp_all add: handleSort_def)
  then show ?thesis
    using sortProducts_price_asc[of xs s lc] sortProducts_price_desc[of xs s lc]
      sortProducts_name_asc[of xs lc key s] sortProducts_store_Inr[of a st lc s st' b]
    by blast
qed

text \<open>
  The theorem of claim C4 on the three products of the scenario, under each of the
  three keys, and on a store that holds them at address 0.
\<close>

theorem sort_stage_witness:
  "price iphone \<noteq> None \<and> price samsung \<noteq> None \<and> price lipstick \<noteq> None
   \<and> sortProducts code_unit_compare (browsing\<lparr>sortBy := ''price-asc''\<rparr>)
         (Some [iphone, samsung, lipstick]) = Inr [lipstick, iphone, samsung]
   \<and> sorted (map (\<lambda>p. or_zero (price p)) [lipstick, iphone, samsung])
   \<and> sortProducts code_unit_compare browsing (Some [iphone, samsung, lipstick])
       = Inr [samsung, iphone, lipstick]
   \<and> sorted_wrt (\<lambda>a b. or_zero (price b) \<le> or_zero (price a)) [samsung, iphone, lipstick]
   \<and> title iphone \<noteq> None \<and> title samsung \<noteq> None \<and> title lipstick \<noteq> None
   \<and> (\<forall>a b. (0 < code_unit_compare a b) = (code_units b < code_units a))
   \<and> sortProducts code_unit_compare searching (Some [iphone, samsung, lipstick])
       = Inr [lipstick, samsung, iphone]
   \<and> sorted_wrt (\<lambda>a b. code_unit_compare (or_empty (title a)) (or_empty (title b)) \<le> 0)
         [lipstick, samsung, iphone]
   \<and> 0 < fresh shelf
   \<and> sortProducts_store code_unit_compare browsing shelf 0
       = Inr (shelf\<lparr>cells := (cells shelf)(1 := [samsung, iphone, lipstick]), fresh := 2\<rparr>, 1)
   \<and> cells (shelf\<lparr>cells := (cells shelf)(1 := [samsung, iphone, lipstick]), fresh := 2\<rparr>) 0
       = cells shelf 0"
proof -
  let ?xs = "[iphone, samsung, lipstick]"
  have p: "\<forall>p\<in>set ?xs. price p \<noteq> None" and t: "\<forall>p\<in>set ?xs. title p \<noteq> None"
    by (simp_all add: sample_defs)
  have k: "\<forall>a b. (0 < code_unit_compare a b) = (code_units b < code_units a)"
    by (simp add: code_unit_compare_key)
  have s1: "sortBy (browsing\<lparr>sortBy := ''price-asc''\<rparr>) = ''price-asc''"
    and s2: "sortBy browsing = ''price-desc''" and s3: "sortBy searching = ''name-asc''"
    by (simp_all add: sample_defs)
  have e1: "sortProducts code_unit_compare (browsing\<lparr>sortBy := ''price-asc''\<rparr>) (Some ?xs)
      = Inr [lipstick, iphone, samsung]"
    by (simp add: sortProducts_def sample_defs)
  have e2: "sortProducts code_unit_compare browsing (Some ?xs) = Inr [samsung, iphone, lipstick]"
    by (simp add: sortProducts_def sample_defs)
  have e3: "sortProducts code_unit_compare searching (Some ?xs) = Inr [lipstick, samsung, iphone]"
    by (simp add: sortProducts_def sample_defs)
  have e4: "sortProducts_store code_unit_compare browsing shelf 0
      = Inr (shelf\<lparr>cells := (cells shelf)(1 := [samsung, iphone, lipstick]), fresh := 2\<rparr>, 1)"
    by (simp add: sortProducts_store_def spread_def sort_in_place_def shelf_def sample_defs)
  have f: "0 < fresh shelf" by (simp add: shelf_def)
  from sort_stage [where xs = ?xs and s = "browsing\<lparr>sortBy := ''price-asc''\<rparr>"
      and lc = code_unit_compare and key = code_units] p s1 e1
  have r1: "sorted (map (\<lambda>p. or_zero (price p)) [lipstick, iphone, samsung])"
    by auto
  from sort_stage [where xs = ?xs and s = browsing and lc = code_unit_compare
      and key = code_units and a = 0 and st = shelf and b = 1
      and st' = "shelf\<lparr>cells := (cells shelf)(1 := [samsung, iphone, lipstick]), fresh := 2\<rparr>"]
    p s2 e2 e4 f
  have r2: "sorted_wrt (\<lambda>a b. or_zero (price b) \<le> or_zero (price a)) [samsung, iphone, lipstick]"
    and r4: "cells (shelf\<lparr>cells := (cells shelf)(1 := [samsung, iphone, lipstick]), fresh := 2\<rparr>) 0
       = cells shelf 0"
    by auto
  from sort_stage [where xs = ?xs and s = searching and lc = code_unit_compare
      and key = code_units] t k s3 e3
  have r3: "sorted_wrt (\<lambda>a b. code_unit_compare (or_empty (title a)) (or_empty (title b)) \<le> 0)
         [lipstick, samsung, iphone]"
    by auto
  from p t have "price iphone \<noteq> None \<and> price samsung \<noteq> None \<and> price lipstick \<noteq> None"
    "title iphone \<noteq> None \<and> title samsung \<noteq> None \<and> title lipstick \<noteq> None"
    by simp_all
  then show ?thesis using e1 e2 e3 e4 f k r1 r2 r3 r4 by blast
qed

section \<open>The request state of the hooks\<close>

text \<open>
  Claim C5, on the detail hook: the effect runs, the fetch succeeds, and the product
  id changes. The new run starts with the product of the old one still in the state,
  loading; when the new fetch fails, the error is shown next to that product. And a
  first fetch that is answered with the body \<^verbatim>\<open>null\<close> ends not loading, with neither
  product nor error.
\<close>

theorem stale_product_after_id_change:
  "view (foldl step useProductDetail_init [Effect, Settle 0 (Inr (Some iphone)), Effect])
     = (Some iphone, True, None)
   \<and> view (foldl step useProductDetail_init
        [Effect, Settle 0 (Inr (Some iphone)), Effect, Settle 1 (Inl (http_error 500))])
     = (Some iphone, False, Some ''HTTP error! status: 500'')
   \<and> view (foldl step useProductDetail_init [Effect, Settle 0 (Inr None)])
     = (None, False, None)"
  by (simp add: useProductDetail_init_def view_def cleanup_def http_error_def digit_def)

text \<open>
  Claim C5, as the code has it, the setters called in one synchronous stretch of
  \<open>fetchProduct\<close> taken as one transition. In every state the detail hook reaches, an
  error is shown only when not loading; as long as no fetch has been answered with a
  product, the product is null. A start shows loading, no error, and the product as it was;
  the success of a fetch whose signal is clear shows what the response body yielded
  (a product, or null), not loading, no error; its failure shows the message (or the
  default text), not loading, and the product as it was. The product is never reset,
  so after a success it stays through later loading and error states. In the list
  hook the data is the empty list, not null, at the start and after a failure; a
  success stores the value fetched.
\<close>

theorem request_state_shapes:
  "(let s = foldl step useProductDetail_init es in
      (error_d s \<noteq> None \<longrightarrow> \<not> loading_d s)
      \<and> ((\<forall>j d. Settle j (Inr (Some d)) \<notin> set es) \<longrightarrow> product_d s = None)
      \<and> view (step s Effect) = (product_d s, True, None)
      \<and> (k < length (runs s) \<longrightarrow> runs s ! k = InFlight \<longrightarrow>
            view (step s (Settle k (Inr data))) = (data, False, None)
            \<and> view (step s (Settle k (Inl err))) =
                (product_d s, False,
                 Some (if message err = [] then ''Failed to fetch product'' else message err))))
   \<and> loadProducts_start useProducts_init = useProducts_init
   \<and> loadProducts_settle (Inr found) (loadProducts_start useProducts_init)
       = \<lparr>products_u = found, filteredProducts = found, loading_u = False, error_u = None\<rparr>
   \<and> loadProducts_settle (Inl err) (loadProducts_start useProducts_init)
       = \<lparr>products_u = [], filteredProducts = [], loading_u = False,
          error_u = Some (message err)\<rparr>"
proof -
  let ?s = "foldl step useProductDetail_init es"
  have "settled_shape useProductDetail_init"
    by (simp add: settled_shape_def useProductDetail_init_def)
  then have "settled_shape ?s" by (rule settled_shape_run)
  then have a: "error_d ?s \<noteq> None \<longrightarrow> \<not> loading_d ?s"
    by (simp add: settled_shape_def)
  have c: "(\<forall>j d. Settle j (Inr (Some d)) \<notin> set es) \<longrightarrow> product_d ?s = None"
    using no_success_run[of useProductDetail_init es] by (simp add: useProductDetail_init_def)
  have d: "view (step ?s Effect) = (product_d ?s, True, None)" by (simp add: view_def)
  have live: "live_is_loading ?s" using live_is_loading_init by (rule live_is_loading_run)
  have e: "k < length (runs ?s) \<longrightarrow> runs ?s ! k = InFlight \<longrightarrow>
            view (step ?s (Settle k (Inr data))) = (data, False, None)
            \<and> view (step ?s (Settle k (Inl err))) =
                (product_d ?s, False,
                 Some (if message err = [] then ''Failed to fetch product'' else message err))"
    using live_success[OF live] live_failure[OF live] by blast
  have f: "loadProducts_start useProducts_init = useProducts_init"
    "loadProducts_settle (Inr found) (loadProducts_start useProducts_init)
       = \<lparr>products_u = found, filteredProducts = found, loading_u = False, error_u = None\<rparr>"
    "loadProducts_settle (Inl err) (loadProducts_start useProducts_init)
       = \<lparr>products_u = [], filteredProducts = [], loading_u = False,
          error_u = Some (message err)\<rparr>"
    by (simp_all add: loadProducts_start_def useProducts_init_def)
  show ?thesis unfolding Let_def using a c d e f by blast
qed

text \<open>
  The theorem of claim C5 on a first fetch that fails with status 500, on a first
  fetch that is answered with a product, and on one answered with \<^verbatim>\<open>null\<close>.
\<close>

theorem request_state_shapes_witness:
  "error_d (foldl step useProductDetail_init [Effect, Settle 0 (Inl (http_error 500))]) \<noteq> None
   \<and> \<not> loading_d (foldl step useProductDetail_init [Effect, Settle 0 (Inl (http_error 500))])
   \<and> product_d (foldl step useProductDetail_init [Effect, Settle 0 (Inl (http_error 500))]) = None
   \<and> 0 < length (runs (foldl step useProductDetail_init [Effect]))
   \<and> runs (foldl step useProductDetail_init [Effect]) ! 0 = InFlight
   \<and> view (step (foldl step useProductDetail_init [Effect]) (Settle 0 (Inr (Some iphone))))
       = (Some iphone, False, None)
   \<and> view (step (foldl step useProductDetail_init [Effect]) (Settle 0 (Inr None)))
       = (None, False, None)"
proof -
  let ?es = "[Effect, Settle 0 (Inl (http_error 500))]"
  have h1: "error_d (foldl step useProductDetail_init ?es) \<noteq> None"
    by (simp add: useProductDetail_init_def cleanup_def)
  have h2: "\<forall>j d. Settle j (Inr (Some d)) \<notin> set ?es" by simp
  have h3: "0 < length (runs (foldl step useProductDetail_init [Effect]))"
    "runs (foldl step useProductDetail_init [Effect]) ! 0 = InFlight"
    by (simp_all add: useProductDetail_init_def cleanup_def)
  from request_state_shapes [where es = ?es] h1 h2
  have a: "\<not> loading_d (foldl step useProductDetail_init ?es)"
    "product_d (foldl step useProductDetail_init ?es) = None"
    unfolding Let_def by blast+
  from request_state_shapes [where es = "[Effect]" and k = 0 and data = "Some iphone"] h3
  have b: "view (step (foldl step useProductDetail_init [Effect]) (Settle 0 (Inr (Some iphone))))
       = (Some iphone, False, None)"
    unfolding Let_def by blast
  from request_state_shapes [where es = "[Effect]" and k = 0 and data = None] h3
  have c: "view (step (foldl step useProductDetail_init [Effect]) (Settle 0 (Inr None)))
       = (None, False, None)"
    unfolding Let_def by blast
  show ?thesis using h1 h3 a b c by blast
qed

section \<open>Cancellation\<close>

text \<open>
  Claim C6. Take any state the detail hook has reached and any run \<open>k\<close> started so
  far. Once the hook is torn down, or the effect runs again for a new product id,
  the settling of run \<open>k\<close>, with a value or with an error and however much later,
  changes none of product, loading and error. After the teardown no sequence of
  settlings changes them.
\<close>

theorem cancelled_fetch_discarded:
  "(let s = foldl step useProductDetail_init es in
      (k < length (runs s) \<longrightarrow>
         view (step (foldl step (step s Unmount) es') (Settle k r))
           = view (foldl step (step s Unmount) es')
         \<and> view (step (foldl step (step s Effect) es') (Settle k r))
           = view (foldl step (step s Effect) es'))
      \<and> view (foldl step (step s Unmount) (map (\<lambda>(j, r). Settle j r) ks)) = view s)"
proof -
  let ?s = "foldl step useProductDetail_init es"
  have ol: "only_last ?s" using only_last_init by (rule only_last_run)
  have a: "k < length (runs ?s) \<longrightarrow>
         view (step (foldl step (step ?s Unmount) es') (Settle k r))
           = view (foldl step (step ?s Unmount) es')
         \<and> view (step (foldl step (step ?s Effect) es') (Settle k r))
           = view (foldl step (step ?s Effect) es')"
    using late_settle_discarded[OF ol, of k Unmount es' r]
      late_settle_discarded[OF ol, of k Effect es' r] by blast
  have "view (foldl step (step ?s Unmount) (map (\<lambda>(j, r). Settle j r) ks))
      = view (step ?s Unmount)"
    using unmount_none_in_flight[OF ol] by (rule settles_after_unmount)
  then have b: "view (foldl step (step ?s Unmount) (map (\<lambda>(j, r). Settle j r) ks)) = view ?s"
    by (simp only: view_unmount)
  show ?thesis unfolding Let_def using a b by blast
qed

text \<open>
  The theorem of claim C6 on a fetch of the first product that resolves late: after
  the teardown the hook still shows the loading state it had; after a change of the
  product id and the arrival of the second product, the hook shows the second.
\<close>

theorem cancelled_fetch_discarded_witness:
  "0 < length (runs (foldl step useProductDetail_init [Effect]))
   \<and> view (step (foldl step (step (foldl step useProductDetail_init [Effect]) Unmount)
                [Settle 1 (Inr (Some samsung))]) (Settle 0 (Inr (Some iphone))))
       = (None, True, None)
   \<and> view (step (foldl step (step (foldl step useProductDetail_init [Effect]) Effect)
                [Settle 1 (Inr (Some samsung))]) (Settle 0 (Inr (Some iphone))))
       = (Some samsung, False, None)"
proof -
  let ?s = "foldl step useProductDetail_init [Effect]"
  have h: "0 < length (runs ?s)" by (simp add: useProductDetail_init_def cleanup_def)
  have e1: "view (foldl step (step ?s Unmount) [Settle 1 (Inr (Some samsung))]) = (None, True, None)"
    by (simp add: useProductDetail_init_def cleanup_def view_def)
  have e2: "view (foldl step (step ?s Effect) [Settle 1 (Inr (Some samsung))])
      = (Some samsung, False, None)"
    by (simp add: useProductDetail_init_def cleanup_def view_def)
  from cancelled_fetch_discarded [where es = "[Effect]" and k = 0
      and es' = "[Settle 1 (Inr (Some samsung))]" and r = "Inr (Some iphone)"] h
  have "view (step (foldl step (step ?s Unmount) [Settle 1 (Inr (Some samsung))]) (Settle 0 (Inr (Some iphone))))
           = view (foldl step (step ?s Unmount) [Settle 1 (Inr (Some samsung))])"
    "view (step (foldl step (step ?s Effect) [Settle 1 (Inr (Some samsung))]) (Settle 0 (Inr (Some iphone))))
           = view (foldl step (step ?s Effect) [Settle 1 (Inr (Some samsung))])"
    unfolding Let_def by blast+
  with e1 e2 h show ?thesis by (simp only: simp_thms)
qed

section \<open>Products without title or price\<close>

text \<open>
  Claim C7. The screen's pipeline throws on a product without title: in the search
  stage as soon as the search text is not blank (\<open>product.title.toLowerCase()\<close>),
  and in the sort stage under \<open>name-asc\<close> when two such products are compared. The
  hook's \<open>handleSearch\<close> guards the same access and drops the product. Under
  \<open>price-asc\<close> a product without price compares as \<open>NaN\<close> with every other, which
  the sort takes for equal: in the order of comparator calls modelled here the list
  stays as it is, while the hook's \<open>handleSort\<close> sorts the missing price as zero.
\<close>

theorem untitled_product_throws:
  "getProcessedProducts lc \<lparr>products = Some [iphone, untitled], searchQuery = ''phone'',
       sortBy = ''name-asc'', filterCategory = ''all''\<rparr> = Inl undefined_receiver
   \<and> getProcessedProducts lc \<lparr>products = Some [untitled, untitled\<lparr>pid := 5\<rparr>],
       searchQuery = [], sortBy = ''name-asc'', filterCategory = ''all''\<rparr> = Inl undefined_receiver
   \<and> filteredProducts (handleSearch ''phone'' (loaded\<lparr>products_u := [iphone, untitled]\<rparr>))
       = [iphone]
   \<and> getProcessedProducts lc \<lparr>products = Some [iphone, untitled, lipstick], searchQuery = [],
       sortBy = ''price-asc'', filterCategory = ''all''\<rparr> = Inr [iphone, untitled, lipstick]
   \<and> handleSort lc ''price'' (loaded\<lparr>filteredProducts := [iphone, untitled, lipstick]\<rparr>)
       = Inr (loaded\<lparr>filteredProducts := [untitled, lipstick, iphone]\<rparr>)"
  by (simp add: getProcessedProducts_def filterProducts_def filterByCategory_def
      sortProducts_def handleSearch_def handleSort_def string_defs or_zero_def sample_defs)

section \<open>Validation before the network\<close>

text \<open>
  Claim C8, on \<open>fetchProductById\<close>: the id is compared with \<^verbatim>\<open>null\<close>, \<^verbatim>\<open>undefined\<close>
  and the empty string only, without trimming, so for an id of three spaces the
  request is sent.
\<close>

theorem whitespace_id_is_fetched:
  "trim ''   '' = []
   \<and> fst (fetchProductById offline (IdStr ''   '')) = [GetProduct (IdStr ''   '')]"
  by (simp add: fetchProductById_def string_defs offline_def)

text \<open>
  Claim C8, as the code has it. \<open>searchProducts\<close> and \<open>fetchProductsByCategory\<close> with
  an argument that is missing, empty or all white space, and \<open>fetchProductById\<close> with
  an id that is \<^verbatim>\<open>null\<close>, \<^verbatim>\<open>undefined\<close> or the empty string, throw their validation
  error before the first \<^verbatim>\<open>await\<close> (the promise of the call is rejected with it) and
  send no request, whatever the network would answer. With any other argument the
  request is sent; an id of white space is such an argument.
\<close>

theorem validation_before_network:
  "searchProducts net None = ([], Inl (Error ''Search query cannot be empty''))
   \<and> (trim q = [] \<longrightarrow>
        searchProducts net (Some q) = ([], Inl (Error ''Search query cannot be empty'')))
   \<and> (trim q \<noteq> [] \<longrightarrow> fst (searchProducts net (Some q)) = [GetSearch q])
   \<and> fetchProductsByCategory net None = ([], Inl (Error ''Category cannot be empty''))
   \<and> (trim c = [] \<longrightarrow>
        fetchProductsByCategory net (Some c) = ([], Inl (Error ''Category cannot be empty'')))
   \<and> (trim c \<noteq> [] \<longrightarrow> fst (fetchProductsByCategory net (Some c)) = [GetCategory c])
   \<and> fetchProductById net Null
       = ([], Inl (Error ''Product ID is required and cannot be empty''))
   \<and> fetchProductById net Undefined
       = ([], Inl (Error ''Product ID is required and cannot be empty''))
   \<and> fetchProductById net (IdStr [])
       = ([], Inl (Error ''Product ID is required and cannot be empty''))
   \<and> (id' \<noteq> Null \<longrightarrow> id' \<noteq> Undefined \<longrightarrow> id' \<noteq> IdStr [] \<longrightarrow>
        fst (fetchProductById net id') = [GetProduct id'])"
proof -
  have t: "\<And>x. trim x \<noteq> [] \<Longrightarrow> x \<noteq> []" by (auto simp: trim_def)
  show ?thesis
    by (auto simp: searchProducts_def fetchProductsByCategory_def fetchProductById_def
        dest: t split: sum.splits)
qed

text \<open>
  The theorem of claim C8 on a network that is down: a query and a category of two
  spaces, a query and a category \<open>phone\<close>, and the id 7.
\<close>

theorem validation_before_network_witness:
  "trim ''  '' = []
   \<and> searchProducts offline (Some ''  '') = ([], Inl (Error ''Search query cannot be empty''))
   \<and> trim ''phone'' \<noteq> []
   \<and> fst (searchProducts offline (Some ''phone'')) = [GetSearch ''phone'']
   \<and> fetchProductsByCategory offline (Some ''  '')
       = ([], Inl (Error ''Category cannot be empty''))
   \<and> fst (fetchProductsByCategory offline (Some ''phone'')) = [GetCategory ''phone'']
   \<and> IdNum 7 \<noteq> Null \<and> IdNum 7 \<noteq> Undefined \<and> IdNum 7 \<noteq> IdStr []
   \<and> fst (fetchProductById offline (IdNum 7)) = [GetProduct (IdNum 7)]"
proof -
  have h1: "trim ''  '' = []" and h2: "trim ''phone'' \<noteq> []" by (simp_all add: string_defs)
  have h3: "IdNum 7 \<noteq> Null" "IdNum 7 \<noteq> Undefined" "IdNum 7 \<noteq> IdStr []" by simp_all
  from validation_before_network [where net = offline and q = "''  ''" and c = "''  ''"] h1
  have a: "searchProducts offline (Some ''  '') = ([], Inl (Error ''Search query cannot be empty''))"
    "fetchProductsByCategory offline (Some ''  '') = ([], Inl (Error ''Category cannot be empty''))"
    by blast+
  from validation_before_network [where net = offline and q = "''phone''" and c = "''phone''"
      and id' = "IdNum 7"] h2 h3
  have b: "fst (searchProducts offline (Some ''phone'')) = [GetSearch ''phone'']"
    "fst (fetchProductsByCategory offline (Some ''phone'')) = [GetCategory ''phone'']"
    "fst (fetchProductById offline (IdNum 7)) = [GetProduct (IdNum 7)]"
    by blast+
  show ?thesis using h1 h2 h3 a b by blast
qed

section \<open>The abort signal and the request\<close>

text \<open>
  Claim C9. The call of \<open>fetchProductById\<close> with a signal as second argument is the
  call without it: for two signals, an aborted one included, the requests sent and
  the value returned or the error thrown are the same, and for an id that passes the
  validation the request is sent. So a cancelled run still gets its answer from the
  network, and the hook only discards it: the settling of a cancelled run with that
  answer changes none of product, loading and error.
\<close>

theorem signal_ignored:
  "fetchProductById_call net productId signal1 = fetchProductById_call net productId signal2
   \<and> fetchProductById_call net productId signal1 = fetchProductById net productId
   \<and> (productId \<noteq> Null \<longrightarrow> productId \<noteq> Undefined \<longrightarrow> productId \<noteq> IdStr [] \<longrightarrow>
        fst (fetchProductById_call net productId signal1) = [GetProduct productId])
   \<and> (k < length (runs s) \<longrightarrow> runs s ! k = Cancelled \<longrightarrow>
        view (step s (Settle k (snd (fetchProductById_call net productId signal1)))) = view s)"
proof (intro conjI impI)
  show "fetchProductById_call net productId signal1 = fetchProductById_call net productId signal2"
    by (simp add: fetchProductById_call_def)
  show "fetchProductById_call net productId signal1 = fetchProductById net productId"
    by (simp add: fetchProductById_call_def)
next
  assume "productId \<noteq> Null" "productId \<noteq> Undefined" "productId \<noteq> IdStr []"
  then show "fst (fetchProductById_call net productId signal1) = [GetProduct productId]"
    by (simp add: fetchProductById_call_def fetchProductById_def split: sum.splits)
next
  assume "k < length (runs s)" "runs s ! k = Cancelled"
  then show "view (step s (Settle k (snd (fetchProductById_call net productId signal1)))) = view s"
    by (intro settle_discarded) simp_all
qed

text \<open>
  The theorem of claim C9 for product 1 on a network that is down, with a clear and
  an aborted signal, and a run that was cancelled by the teardown.
\<close>

theorem signal_ignored_witness:
  "fetchProductById_call offline (IdNum 1) False = fetchProductById_call offline (IdNum 1) True
   \<and> IdNum 1 \<noteq> Null \<and> IdNum 1 \<noteq> Undefined \<and> IdNum 1 \<noteq> IdStr []
   \<and> fst (fetchProductById_call offline (IdNum 1) True) = [GetProduct (IdNum 1)]
   \<and> 0 < length (runs (foldl step useProductDetail_init [Effect, Unmount]))
   \<and> runs (foldl step useProductDetail_init [Effect, Unmount]) ! 0 = Cancelled
   \<and> view (step (foldl step useProductDetail_init [Effect, Unmount])
         (Settle 0 (snd (fetchProductById_call offline (IdNum 1) True))))
       = view (foldl step useProductDetail_init [Effect, Unmount])"
proof -
  have h1: "IdNum 1 \<noteq> Null" "IdNum 1 \<noteq> Undefined" "IdNum 1 \<noteq> IdStr []" by simp_all
  have h2: "0 < length (runs (foldl step useProductDetail_init [Effect, Unmount]))"
    "runs (foldl step useProductDetail_init [Effect, Unmount]) ! 0 = Cancelled"
    by (simp_all add: useProductDetail_init_def cleanup_def)
  note inst = signal_ignored [where net = offline and productId = "IdNum 1" and ?signal1.0 = True
      and ?signal2.0 = False and k = 0 and s = "foldl step useProductDetail_init [Effect, Unmount]"]
  from inst
  have a: "fetchProductById_call offline (IdNum 1) False = fetchProductById_call offline (IdNum 1) True"
    by simp
  from inst h1
  have b: "fst (fetchProductById_call offline (IdNum 1) True) = [GetProduct (IdNum 1)]"
    by blast
  from inst h2
  have c: "view (step (foldl step useProductDetail_init [Effect, Unmount])
         (Settle 0 (snd (fetchProductById_call offline (IdNum 1) True))))
       = view (foldl step useProductDetail_init [Effect, Unmount])"
    by blast
  show ?thesis using h1 h2 a b c by blast
qed

end
